theory Spec2Isabelle
  imports Main "HOL-Library.Word"
begin

section \<open>Errors and collaborators\<close>

text \<open>
  The feedback bot keeps its data in a relational store (package database), talks to the
  chat transport through a client (package telegram) and keeps the inbound-event offset
  in a configuration object. All three can fail. Every call on a collaborator, a read as
  much as a write, takes the next entry of a fault script carried by the collaborator:
  \<open>True\<close> makes the call fail, \<open>False\<close> or an exhausted script lets it succeed.
  Every behaviour of the three collaborators is one choice of scripts.

  Go's \<open>error\<close> results are \<open>error option\<close> (\<open>None\<close> is \<open>nil\<close>); the logger's
  \<open>l.Err\<close> only decorates the message of an error and is the identity here.
\<close>

datatype error =
  StoreError | RecordNotFound | GatewayError | ConfigError | UserNotFound int | NoId | SyntaxError

definition fault :: "bool list \<Rightarrow> bool" where
  "fault fs = (case fs of [] \<Rightarrow> False | f # _ \<Rightarrow> f)"

section \<open>Strings\<close>

text \<open>
  Go strings are byte sequences, compared bytewise; \<open>string\<close> is a list of bytes. The
  button labels start with an emoji, written here as its UTF-8 bytes.
\<close>

definition star :: string where "star = [CHR 0xE2, CHR 0xAD, CHR 0x90]"
definition qmark :: string where "qmark = [CHR 0xE2, CHR 0x9D, CHR 0x93]"
definition cross :: string where "cross = [CHR 0xE2, CHR 0x9D, CHR 0x8C]"
definition calendar :: string where "calendar = [CHR 0xF0, CHR 0x9F, CHR 0x93, CHR 0x85]"
definition back_arrow :: string where
  "back_arrow = [CHR 0xE2, CHR 0x86, CHR 0xA9, CHR 0xEF, CHR 0xB8, CHR 0x8F]"
definition wave :: string where "wave = [CHR 0xF0, CHR 0x9F, CHR 0x91, CHR 0x8B]"
definition nl :: string where "nl = [CHR 0x0A]"
definition dq :: string where "dq = [CHR 0x22]"

text \<open>\<open>strings.Repeat\<close>; a negative count panics in Go and is not used by the bot.\<close>

fun Repeat :: "string \<Rightarrow> nat \<Rightarrow> string" where
  "Repeat s 0 = []"
| "Repeat s (Suc n) = s @ Repeat s n"

text \<open>\<open>strings.Split\<close> with a one-byte separator: never returns the empty slice.\<close>

fun Split :: "string \<Rightarrow> char \<Rightarrow> string list" where
  "Split [] sep = [[]]"
| "Split (c # cs) sep =
     (if c = sep then [] # Split cs sep
      else (case Split cs sep of [] \<Rightarrow> [[c]] | p # ps \<Rightarrow> (c # p) # ps))"

text \<open>\<open>strconv.Itoa\<close> and \<open>strconv.Atoi\<close> (base 10, optional sign, 64-bit range).\<close>

definition digit_char :: "nat \<Rightarrow> char" where
  "digit_char d = ''0123456789'' ! d"

fun itoa_nat :: "nat \<Rightarrow> string" where
  "itoa_nat n = (if n < 10 then [digit_char n] else itoa_nat (n div 10) @ [digit_char (n mod 10)])"

declare itoa_nat.simps [simp del]

definition Itoa :: "int \<Rightarrow> string" where
  "Itoa i = (if i < 0 then CHR ''-'' # itoa_nat (nat (- i)) else itoa_nat (nat i))"

definition digit_val :: "char \<Rightarrow> nat option" where
  "digit_val c = (let k = (of_char c :: nat) in if 48 \<le> k \<and> k \<le> 57 then Some (k - 48) else None)"

fun parse_digits :: "string \<Rightarrow> nat \<Rightarrow> nat option" where
  "parse_digits [] acc = Some acc"
| "parse_digits (c # cs) acc =
     (case digit_val c of None \<Rightarrow> None | Some d \<Rightarrow> parse_digits cs (10 * acc + d))"

definition Atoi :: "string \<Rightarrow> error + int" where
  "Atoi s =
     (let neg = (s \<noteq> [] \<and> hd s = CHR ''-'');
          ds = (if s \<noteq> [] \<and> (hd s = CHR ''-'' \<or> hd s = CHR ''+'') then tl s else s)
      in if ds = [] then Inl SyntaxError
         else (case parse_digits ds 0 of
                 None \<Rightarrow> Inl SyntaxError
               | Some n \<Rightarrow>
                   (let v = (if neg then - int n else int n)
                    in if - (2 ^ 63) \<le> v \<and> v < 2 ^ 63 then Inr v else Inl SyntaxError)))"

section \<open>The store: tables (package database, models)\<close>

text \<open>
  One record per table, with the columns the bot reads or writes. Row identifiers
  (\<open>gorm.Model.ID\<close>, unsigned) and the keys that refer to them are natural numbers,
  \<open>0\<close> being the unset key; Go's \<open>int\<close> fields are integers. The structs carry the
  rows they belong to (\<open>User\<close>, \<open>Answerer\<close>); these are filled by \<open>Preload\<close> and are
  the zero struct otherwise. The lists a struct can carry (the reviews and questions of a
  user, the entries of a question) are never filled by the bot and are left out. Of
  \<open>gorm.Model\<close>'s timestamps only a review's creation time is ever read.
\<close>

record user =
  uID :: nat
  uChatID :: int
  uState :: int
  uNickname :: string
  uIsEmployee :: bool
  uIsReceiver :: bool

definition zero_user :: user where
  "zero_user = \<lparr>uID = 0, uChatID = 0, uState = 0, uNickname = [],
                 uIsEmployee = False, uIsReceiver = False\<rparr>"

record review =
  rID :: nat
  rCreatedAt :: int
  rRating :: int
  rText :: string
  rUserID :: nat
  rUser :: user

record question =
  qID :: nat
  qHeader :: string
  qUserID :: nat
  qUser :: user
  qAnswererID :: nat
  qAnswerer :: user
  qHaveAnswer :: bool
  qIsClosed :: bool

definition zero_question :: question where
  "zero_question = \<lparr>qID = 0, qHeader = [], qUserID = 0, qUser = zero_user, qAnswererID = 0,
                     qAnswerer = zero_user, qHaveAnswer = False, qIsClosed = False\<rparr>"

record correspondence =
  cID :: nat
  cQuestionID :: nat
  cMessageID :: int
  cUserID :: nat
  cUser :: user
  cIsEmployee :: bool

text \<open>
  The database: the four tables, each listing its rows, the wall clock that stamps new
  rows, and the fault script of its calls.
\<close>

record db =
  users :: "user list"
  reviews :: "review list"
  questions :: "question list"
  corrs :: "correspondence list"
  db_now :: int
  db_faults :: "bool list"

definition empty_db :: db where
  "empty_db = \<lparr>users = [], reviews = [], questions = [], corrs = [], db_now = 0, db_faults = []\<rparr>"

subsection \<open>The ORM calls\<close>

text \<open>
  The ORM is a library outside the repository. Its calls are modelled by what they do
  to the store of the bot:
  \<^item> every call (\<open>First\<close>, \<open>Find\<close>, \<open>Count\<close>, \<open>Save\<close>) takes one entry of the fault
    script; a call that fails returns an error, reads nothing into the struct or slice it
    was given and writes nothing;
  \<^item> \<open>First\<close> returns the matching row with the least primary key, and the error
    \<open>RecordNotFound\<close> when there is none;
  \<^item> \<open>Find\<close> returns the matching rows, in table order unless an order is asked for;
  \<^item> \<open>Preload\<close> fills a carried row (\<open>User\<close>, \<open>Answerer\<close>) from the key that refers
    to it; a read without \<open>Preload\<close> leaves the carried rows zero;
  \<^item> \<open>Save\<close> first saves the rows the struct carries: a carried row that is not the
    zero struct is inserted unless a row of its key is there already (under a fresh key
    when its key is 0), and the key of the struct that refers to it (\<open>UserID\<close>,
    \<open>AnswererID\<close>) is set to the key of the carried row, whatever the code has put
    there. A key whose carried row is the zero struct stays as the code has set it. Then
    a struct whose key is 0 is inserted as a row under a fresh key (one more than the
    greatest key of the table), and a struct with a key is written over the row of that
    key, or inserted when there is none. The carried rows are no columns of the row.
\<close>

definition consume :: "db \<Rightarrow> db" where
  "consume d = d\<lparr>db_faults := tl (db_faults d)\<rparr>"

definition first_by :: "('a \<Rightarrow> nat) \<Rightarrow> ('a \<Rightarrow> bool) \<Rightarrow> 'a list \<Rightarrow> 'a option" where
  "first_by key P rows = (case sort_key key (filter P rows) of [] \<Rightarrow> None | r # _ \<Rightarrow> Some r)"

text \<open>
  \<open>First\<close> on the table \<open>rows\<close> with the condition \<open>P\<close>, into a struct that holds
  \<open>dest\<close>; \<open>Find\<close> and \<open>Count\<close> of the rows that a query selects.
\<close>

definition First ::
  "('a \<Rightarrow> nat) \<Rightarrow> ('a \<Rightarrow> bool) \<Rightarrow> 'a list \<Rightarrow> 'a \<Rightarrow> db \<Rightarrow> error option \<times> 'a \<times> db" where
  "First key P rows dest d =
     (if fault (db_faults d) then (Some StoreError, dest, consume d)
      else (case first_by key P rows of
              None \<Rightarrow> (Some RecordNotFound, dest, consume d)
            | Some r \<Rightarrow> (None, r, consume d)))"

definition Find :: "'a list \<Rightarrow> db \<Rightarrow> error option \<times> 'a list \<times> db" where
  "Find selected d =
     (if fault (db_faults d) then (Some StoreError, [], consume d)
      else (None, selected, consume d))"

definition Count :: "'a list \<Rightarrow> int \<Rightarrow> db \<Rightarrow> error option \<times> int \<times> db" where
  "Count selected dest d =
     (if fault (db_faults d) then (Some StoreError, dest, consume d)
      else (None, int (length selected), consume d))"

definition fresh_id :: "nat list \<Rightarrow> nat" where
  "fresh_id ids = Suc (fold max ids 0)"

definition upsert :: "('a \<Rightarrow> nat) \<Rightarrow> 'a \<Rightarrow> 'a list \<Rightarrow> 'a list" where
  "upsert key r rows =
     (if list_ex (\<lambda>x. key x = key r) rows
      then map (\<lambda>x. if key x = key r then r else x) rows
      else rows @ [r])"

definition preload_user :: "nat \<Rightarrow> db \<Rightarrow> user" where
  "preload_user k d =
     (if k = 0 then zero_user
      else (case first_by uID (\<lambda>u. uID u = k) (users d) of None \<Rightarrow> zero_user | Some u \<Rightarrow> u))"

text \<open>
  The rows of the tables, without what the structs carry, and the structs that a read
  with \<open>Preload\<close> returns.
\<close>

definition review_row :: "review \<Rightarrow> review" where
  "review_row r = r\<lparr>rUser := zero_user\<rparr>"

definition question_row :: "question \<Rightarrow> question" where
  "question_row q = q\<lparr>qUser := zero_user, qAnswerer := zero_user\<rparr>"

definition corr_row :: "correspondence \<Rightarrow> correspondence" where
  "corr_row c = c\<lparr>cUser := zero_user\<rparr>"

definition load_question :: "question \<Rightarrow> db \<Rightarrow> question" where
  "load_question q d = q\<lparr>qUser := preload_user (qUserID q) d,
                          qAnswerer := preload_user (qAnswererID q) d\<rparr>"

text \<open>
  The part of \<open>Save\<close> that deals with a carried row: the row as it is after the call
  (with its key, when it was inserted under a fresh one) and the table of users after it;
  and the key that the saved struct refers to the carried row by.
\<close>

definition save_carried :: "user \<Rightarrow> user list \<Rightarrow> user \<times> user list" where
  "save_carried u rows =
     (if u = zero_user then (u, rows)
      else if uID u = 0
        then (let u' = u\<lparr>uID := fresh_id (map uID rows)\<rparr> in (u', rows @ [u']))
      else if list_ex (\<lambda>x. uID x = uID u) rows then (u, rows)
      else (u, rows @ [u]))"

definition belongs_to :: "nat \<Rightarrow> user \<Rightarrow> user \<Rightarrow> nat" where
  "belongs_to k carried saved = (if carried = zero_user then k else uID saved)"

definition save_user :: "user \<Rightarrow> db \<Rightarrow> error option \<times> user \<times> db" where
  "save_user u d =
     (if fault (db_faults d) then (Some StoreError, u, consume d)
      else (let u' = (if uID u = 0 then u\<lparr>uID := fresh_id (map uID (users d))\<rparr> else u)
            in (None, u', (consume d)\<lparr>users := upsert uID u' (users d)\<rparr>)))"

definition save_review :: "review \<Rightarrow> db \<Rightarrow> error option \<times> review \<times> db" where
  "save_review r d =
     (if fault (db_faults d) then (Some StoreError, r, consume d)
      else (case save_carried (rUser r) (users d) of
              (usr, rows1) \<Rightarrow>
                (let r1 = r\<lparr>rUser := usr, rUserID := belongs_to (rUserID r) (rUser r) usr\<rparr>;
                     r' = (if rID r1 = 0
                           then r1\<lparr>rID := fresh_id (map rID (reviews d)), rCreatedAt := db_now d\<rparr>
                           else r1)
                 in (None, r', (consume d)\<lparr>users := rows1,
                                 reviews := upsert rID (review_row r') (reviews d)\<rparr>))))"

definition save_question :: "question \<Rightarrow> db \<Rightarrow> error option \<times> question \<times> db" where
  "save_question q d =
     (if fault (db_faults d) then (Some StoreError, q, consume d)
      else (case save_carried (qUser q) (users d) of
              (usr, rows1) \<Rightarrow>
                (case save_carried (qAnswerer q) rows1 of
                   (ans, rows2) \<Rightarrow>
                     (let q1 = q\<lparr>qUser := usr,
                                  qUserID := belongs_to (qUserID q) (qUser q) usr,
                                  qAnswerer := ans,
                                  qAnswererID := belongs_to (qAnswererID q) (qAnswerer q) ans\<rparr>;
                          q' = (if qID q1 = 0
                                then q1\<lparr>qID := fresh_id (map qID (questions d))\<rparr>
                                else q1)
                      in (None, q', (consume d)\<lparr>users := rows2,
                                      questions := upsert qID (question_row q') (questions d)\<rparr>)))))"

definition save_corr :: "correspondence \<Rightarrow> db \<Rightarrow> error option \<times> correspondence \<times> db" where
  "save_corr c d =
     (if fault (db_faults d) then (Some StoreError, c, consume d)
      else (case save_carried (cUser c) (users d) of
              (usr, rows1) \<Rightarrow>
                (let c1 = c\<lparr>cUser := usr, cUserID := belongs_to (cUserID c) (cUser c) usr\<rparr>;
                     c' = (if cID c1 = 0 then c1\<lparr>cID := fresh_id (map cID (corrs d))\<rparr> else c1)
                 in (None, c', (consume d)\<lparr>users := rows1,
                                 corrs := upsert cID (corr_row c') (corrs d)\<rparr>))))"

subsection \<open>Queries and updates (package database)\<close>

text \<open>
  \<open>AddUser\<close> does not look at the result of its lookup: when the lookup fails or finds
  nothing, the struct is still the zero user and \<open>Save\<close> inserts a new row.
\<close>

definition AddUser :: "int \<Rightarrow> string \<Rightarrow> int \<Rightarrow> db \<Rightarrow> error option \<times> user \<times> db" where
  "AddUser chatId nick state d =
     (case First uID (\<lambda>u. uChatID u = chatId \<or> uNickname u = nick) (users d) zero_user d of
        (_, user, d1) \<Rightarrow>
          save_user (user\<lparr>uNickname := nick, uChatID := chatId, uState := state,
                          uIsReceiver := False\<rparr>) d1)"

definition AddQuestion :: "string \<Rightarrow> user \<Rightarrow> db \<Rightarrow> error option \<times> question \<times> db" where
  "AddQuestion header user d =
     save_question (zero_question\<lparr>qUserID := uID user, qHeader := header\<rparr>) d"

text \<open>
  The queries return \<open>nil\<close> (\<open>None\<close>, the empty list) when the call fails as well as
  when nothing is found.
\<close>

definition GetReceivers :: "db \<Rightarrow> user list \<times> db" where
  "GetReceivers d =
     (case Find (filter (\<lambda>u. uIsEmployee u \<and> uIsReceiver u \<and>
                              \<not> list_ex (\<lambda>q. qAnswererID q = uID u) (questions d)) (users d)) d of
        (Some e, _, d1) \<Rightarrow> ([], d1)
      | (None, users', d1) \<Rightarrow> (if length users' = 0 then [] else users', d1))"

definition GetUserByChatID :: "int \<Rightarrow> db \<Rightarrow> user option \<times> db" where
  "GetUserByChatID chatId d =
     (case First uID (\<lambda>u. uChatID u = chatId) (users d) zero_user d of
        (Some e, _, d1) \<Rightarrow> (None, d1)
      | (None, user, d1) \<Rightarrow> (if uID user = 0 then None else Some user, d1))"

definition GetEmptyReview :: "user \<Rightarrow> db \<Rightarrow> review option \<times> db" where
  "GetEmptyReview user d =
     (case First rID (\<lambda>r. rUserID r = uID user \<and> rText r = [])
             (map (\<lambda>r. r\<lparr>rUser := preload_user (rUserID r) d\<rparr>) (reviews d))
             \<lparr>rID = 0, rCreatedAt = 0, rRating = 0, rText = [], rUserID = 0, rUser = zero_user\<rparr> d of
        (Some e, _, d1) \<Rightarrow> (None, d1)
      | (None, review, d1) \<Rightarrow> (if rID review = 0 then None else Some review, d1))"

definition GetReviewsInRange :: "int \<Rightarrow> int \<Rightarrow> db \<Rightarrow> review list \<times> db" where
  "GetReviewsInRange fDate sDate d =
     (case Find (sort_key rID (filter (\<lambda>r. sDate \<le> rCreatedAt r \<and> rCreatedAt r \<le> fDate)
                                 (map review_row (reviews d)))) d of
        (Some e, _, d1) \<Rightarrow> ([], d1)
      | (None, reviews', d1) \<Rightarrow> (if length reviews' = 0 then [] else reviews', d1))"

text \<open>
  \<open>GetCountReviewsByRating\<close>: five calls of \<open>Count\<close>, whose errors are not looked at; a
  count that fails leaves its variable 0.
\<close>

fun count_ratings :: "int list \<Rightarrow> db \<Rightarrow> int list \<times> db" where
  "count_ratings [] d = ([], d)"
| "count_ratings (i # rest) d =
     (case Count (filter (\<lambda>r. rRating r = i + 1) (reviews d)) 0 d of
        (_, c, d1) \<Rightarrow> (case count_ratings rest d1 of (cs, d2) \<Rightarrow> (c # cs, d2)))"

definition GetCountReviewsByRating :: "db \<Rightarrow> int list \<times> db" where
  "GetCountReviewsByRating d = count_ratings [0, 1, 2, 3, 4] d"

definition GetQuestionById :: "int \<Rightarrow> db \<Rightarrow> question option \<times> db" where
  "GetQuestionById ident d =
     (case First qID (\<lambda>q. int (qID q) = ident) (map (\<lambda>q. load_question q d) (questions d))
             zero_question d of
        (Some e, _, d1) \<Rightarrow> (None, d1)
      | (None, question, d1) \<Rightarrow> (if qID question = 0 then None else Some question, d1))"

definition GetOpenQuestionByUser :: "user \<Rightarrow> db \<Rightarrow> question option \<times> db" where
  "GetOpenQuestionByUser user d =
     (case First qID (\<lambda>q. qUserID q = uID user \<and> \<not> qIsClosed q)
             (map (\<lambda>q. load_question q d) (questions d)) zero_question d of
        (Some e, _, d1) \<Rightarrow> (None, d1)
      | (None, question, d1) \<Rightarrow> (if qID question = 0 then None else Some question, d1))"

definition GetOpenQuestionByAnswerer :: "user \<Rightarrow> db \<Rightarrow> question option \<times> db" where
  "GetOpenQuestionByAnswerer user d =
     (case First qID (\<lambda>q. qAnswererID q = uID user \<and> \<not> qIsClosed q)
             (map (\<lambda>q. load_question q d) (questions d)) zero_question d of
        (Some e, _, d1) \<Rightarrow> (None, d1)
      | (None, question, d1) \<Rightarrow> (if qID question = 0 then None else Some question, d1))"

text \<open>The filter of a claim: the question of that key, unclaimed, unanswered and open.\<close>

definition is_new :: "question \<Rightarrow> bool" where
  "is_new q \<longleftrightarrow> qAnswererID q = 0 \<and> \<not> qHaveAnswer q \<and> \<not> qIsClosed q"

definition GetNewQuestionById :: "int \<Rightarrow> db \<Rightarrow> question option \<times> db" where
  "GetNewQuestionById ident d =
     (case First qID (\<lambda>q. int (qID q) = ident \<and> is_new q) (map question_row (questions d))
             zero_question d of
        (Some e, _, d1) \<Rightarrow> (None, d1)
      | (None, question, d1) \<Rightarrow> (if qID question = 0 then None else Some question, d1))"

definition GetNewQuestions :: "db \<Rightarrow> question list \<times> db" where
  "GetNewQuestions d =
     (case Find (sort_key qID (filter is_new (map question_row (questions d)))) d of
        (Some e, _, d1) \<Rightarrow> ([], d1)
      | (None, questions', d1) \<Rightarrow> (if length questions' = 0 then [] else questions', d1))"

definition GetCorrespondenceByQuestion :: "question \<Rightarrow> db \<Rightarrow> correspondence list \<times> db" where
  "GetCorrespondenceByQuestion question d =
     (case Find (map (\<lambda>c. c\<lparr>cUser := preload_user (cUserID c) d\<rparr>)
                   (sort_key cID (filter (\<lambda>c. cQuestionID c = qID question) (corrs d)))) d of
        (Some e, _, d1) \<Rightarrow> ([], d1)
      | (None, corr, d1) \<Rightarrow> (if length corr = 0 then [] else corr, d1))"

text \<open>
  \<open>AddCorrespondence\<close> builds the row from the sender's open question. The struct is
  given the sender as \<open>User\<close> and no \<open>UserID\<close>; \<open>Save\<close> takes the key from the
  carried row.
\<close>

definition AddCorrespondence ::
  "user \<Rightarrow> int \<Rightarrow> db \<Rightarrow> error option \<times> correspondence option \<times> db" where
  "AddCorrespondence user messageId d =
     (case (if uIsEmployee user then GetOpenQuestionByAnswerer user d
            else GetOpenQuestionByUser user d) of
        (None, d1) \<Rightarrow> (None, None, d1)
      | (Some question, d1) \<Rightarrow>
          (case save_corr \<lparr>cID = 0, cQuestionID = qID question, cMessageID = messageId,
                           cUserID = 0, cUser = user, cIsEmployee = False\<rparr> d1 of
             (err, corr, d2) \<Rightarrow> (err, Some corr, d2)))"

definition ChangeUserState :: "int \<Rightarrow> user \<Rightarrow> db \<Rightarrow> error option \<times> user \<times> db" where
  "ChangeUserState state user d = save_user (user\<lparr>uState := state\<rparr>) d"

definition ChangeUserIsReceiver :: "bool \<Rightarrow> user \<Rightarrow> db \<Rightarrow> error option \<times> user \<times> db" where
  "ChangeUserIsReceiver isReceiver user d = save_user (user\<lparr>uIsReceiver := isReceiver\<rparr>) d"

definition ChangeTextReviewByUser :: "string \<Rightarrow> user \<Rightarrow> db \<Rightarrow> error option \<times> db" where
  "ChangeTextReviewByUser text user d =
     (case GetEmptyReview user d of
        (None, d1) \<Rightarrow> (None, d1)
      | (Some review, d1) \<Rightarrow>
          (case save_review (review\<lparr>rText := text\<rparr>) d1 of (err, _, d2) \<Rightarrow> (err, d2)))"

definition ChangeQuestionHaveAnswer ::
  "bool \<Rightarrow> question \<Rightarrow> db \<Rightarrow> error option \<times> question \<times> db" where
  "ChangeQuestionHaveAnswer state question d = save_question (question\<lparr>qHaveAnswer := state\<rparr>) d"

definition ChangeQuestionAnswerer ::
  "nat \<Rightarrow> question \<Rightarrow> db \<Rightarrow> error option \<times> question \<times> db" where
  "ChangeQuestionAnswerer answererID question d =
     save_question (question\<lparr>qAnswererID := answererID\<rparr>) d"

definition ChangeQuestionIsClosed ::
  "bool \<Rightarrow> question \<Rightarrow> db \<Rightarrow> error option \<times> question \<times> db" where
  "ChangeQuestionIsClosed closed question d = save_question (question\<lparr>qIsClosed := closed\<rparr>) d"

section \<open>The gateway and the application (package telegram, package bot)\<close>

text \<open>
  Outbound requests: a text with an optional keyboard, a forward (the original sender
  stays visible) and a copy. The client records every request with its outcome
  (\<open>True\<close>: delivered).
\<close>

datatype markup =
    NoMarkup
  | ReplyKeyboardMarkup "string list list"
  | InlineKeyboardMarkup "(string \<times> string) list list"

datatype chattable =
    NewMessage int string markup
  | NewForward int int int
  | NewCopyMessage int int int

record client =
  calls :: "(chattable \<times> bool) list"
  bot_faults :: "bool list"

definition Send :: "chattable \<Rightarrow> client \<Rightarrow> error option \<times> client" where
  "Send c b =
     (if fault (bot_faults b)
      then (Some GatewayError, b\<lparr>calls := calls b @ [(c, False)], bot_faults := tl (bot_faults b)\<rparr>)
      else (None, b\<lparr>calls := calls b @ [(c, True)], bot_faults := tl (bot_faults b)\<rparr>))"

definition delivered :: "client \<Rightarrow> chattable list" where
  "delivered b = map fst (filter snd (calls b))"

text \<open>
  The configuration holds the offset in memory (\<open>Set\<close>, \<open>GetInt\<close>) and on disk
  (\<open>WriteConfig\<close>, which can fail). The offset is computed from the identifier of an
  update by Go's addition on \<open>int\<close>, which is 64 bits wide on the platforms the bot is
  built for and wraps around; the identifier and the offset are 64-bit words (read as
  signed numbers by \<open>sint\<close>). The other \<open>int\<close> fields are only stored, compared and
  printed, and are integers.
\<close>

record conf =
  offset :: "64 word"
  written_offset :: "64 word"
  conf_faults :: "bool list"

definition WriteConfig :: "conf \<Rightarrow> error option \<times> conf" where
  "WriteConfig c =
     (if fault (conf_faults c) then (Some ConfigError, c\<lparr>conf_faults := tl (conf_faults c)\<rparr>)
      else (None, c\<lparr>written_offset := offset c, conf_faults := tl (conf_faults c)\<rparr>))"

text \<open>
  \<open>App\<close> with its three collaborators. \<open>Now\<close> is the reading of the wall clock
  (seconds) and \<open>MonthBefore\<close> the calendar's "one month earlier", both used by
  the review listing only.
\<close>

record App =
  Bot :: client
  DB :: db
  Conf :: conf
  Now :: int
  MonthBefore :: "int \<Rightarrow> int"

text \<open>
  A call on \<open>app.Bot\<close> or \<open>app.DB\<close> reads the collaborator from the application and
  puts the collaborator it leaves behind back: \<open>send\<close> is \<open>app.Bot.Send\<close>,
  \<open>in_db\<close> and \<open>query\<close> run a function of package database on \<open>app.DB\<close> (one
  that returns an error and a struct, or one value), \<open>in_bot\<close> a function that takes
  \<open>app.Bot\<close>. A struct passed by pointer
  and changed by the callee (the user, a question) is returned next to the error.
\<close>

definition send :: "chattable \<Rightarrow> App \<Rightarrow> error option \<times> App" where
  "send c app = (case Send c (Bot app) of (err, b) \<Rightarrow> (err, app\<lparr>Bot := b\<rparr>))"

definition in_db :: "(db \<Rightarrow> error option \<times> 'a \<times> db) \<Rightarrow> App \<Rightarrow> error option \<times> 'a \<times> App" where
  "in_db f app = (case f (DB app) of (err, x, d) \<Rightarrow> (err, x, app\<lparr>DB := d\<rparr>))"

definition query :: "(db \<Rightarrow> 'a \<times> db) \<Rightarrow> App \<Rightarrow> 'a \<times> App" where
  "query f app = (case f (DB app) of (x, d) \<Rightarrow> (x, app\<lparr>DB := d\<rparr>))"

definition in_bot :: "(client \<Rightarrow> error option \<times> client) \<Rightarrow> App \<Rightarrow> error option \<times> App" where
  "in_bot f app = (case f (Bot app) of (err, b) \<Rightarrow> (err, app\<lparr>Bot := b\<rparr>))"

subsection \<open>Inbound events\<close>

text \<open>
  The fields of \<open>Update\<close>, \<open>Message\<close> and \<open>CallbackQuery\<close> that the bot reads. The
  sender of a message and the message of a button press are taken as present, as they
  are in the private chats the bot serves.
\<close>

record tg_user =
  tgID :: int
  tgUserName :: string

record message =
  mMessageID :: int
  mFrom :: tg_user
  mChatID :: int
  mText :: string

record callback_query =
  cbMessage :: message
  cbData :: string

record update =
  UpdateID :: "64 word"
  Message :: "message option"
  CallbackQuery :: "callback_query option"

subsection \<open>Constants\<close>

named_theorems consts_defs

definition SNew :: int where [consts_defs]: "SNew = 1"
definition SMain :: int where [consts_defs]: "SMain = 2"
definition SReview :: int where [consts_defs]: "SReview = 3"
definition SReviewText :: int where [consts_defs]: "SReviewText = 4"
definition SQuestion :: int where [consts_defs]: "SQuestion = 5"
definition SQuestionDiscussion :: int where [consts_defs]: "SQuestionDiscussion = 6"
definition SSwitchReceiver :: int where [consts_defs]: "SSwitchReceiver = 7"
definition SSearchQuestion :: int where [consts_defs]: "SSearchQuestion = 8"

definition CBQuestion :: int where [consts_defs]: "CBQuestion = 1"

definition RDay :: int where [consts_defs]: "RDay = 1"
definition RWeek :: int where [consts_defs]: "RWeek = 2"
definition RMonth :: int where [consts_defs]: "RMonth = 3"
definition RAll :: int where [consts_defs]: "RAll = 4"

definition UserMain :: int where [consts_defs]: "UserMain = 1"
definition UserStars :: int where [consts_defs]: "UserStars = 2"
definition UserClose :: int where [consts_defs]: "UserClose = 3"
definition EmplMain :: int where [consts_defs]: "EmplMain = 4"
definition EmplMainR :: int where [consts_defs]: "EmplMainR = 5"
definition EmplReview :: int where [consts_defs]: "EmplReview = 6"
definition EmplExit :: int where [consts_defs]: "EmplExit = 7"

text \<open>The button labels and the command, as the source spells them.\<close>

named_theorems label_defs

definition cmd_start :: string where [label_defs]: "cmd_start = ''/start''"
definition btn_Review :: string where [label_defs]: "btn_Review = star @ ''Review''"
definition btn_Question :: string where [label_defs]: "btn_Question = qmark @ ''Question''"
definition btn_Close :: string where [label_defs]: "btn_Close = cross @ ''Close''"
definition btn_Receive :: string where [label_defs]: "btn_Receive = qmark @ ''Receive questions''"
definition btn_NotReceive :: string where
  [label_defs]: "btn_NotReceive = qmark @ ''Do not receive questions''"
definition btn_Open :: string where [label_defs]: "btn_Open = qmark @ ''Open questions''"
definition btn_Find :: string where [label_defs]: "btn_Find = qmark @ ''Find a question''"
definition btn_Reviews :: string where [label_defs]: "btn_Reviews = star @ ''Reviews''"
definition btn_Day :: string where [label_defs]: "btn_Day = calendar @ ''For a day''"
definition btn_Week :: string where [label_defs]: "btn_Week = calendar @ ''For a week''"
definition btn_Month :: string where [label_defs]: "btn_Month = calendar @ ''For a month''"
definition btn_All :: string where [label_defs]: "btn_All = calendar @ ''All (no text)''"
definition btn_Back :: string where [label_defs]: "btn_Back = back_arrow @ ''Back''"

subsection \<open>Responses (keyboards, prompts, forwarding)\<close>

definition buttons :: "int \<Rightarrow> string list" where
  "buttons key =
     (if key = UserMain then [btn_Review, btn_Question]
      else if key = UserStars
        then [Repeat star 5, Repeat star 4, Repeat star 3, Repeat star 2, Repeat star 1]
      else if key = UserClose then [btn_Close]
      else if key = EmplMain then [btn_Receive, btn_Open, btn_Find, btn_Reviews]
      else if key = EmplMainR then [btn_NotReceive, btn_Open, btn_Find, btn_Reviews]
      else if key = EmplReview then [btn_Day, btn_Week, btn_Month, btn_All, btn_Back]
      else if key = EmplExit then [btn_Back]
      else [])"

definition newReplyKeyboardMarkup :: "string list \<Rightarrow> markup" where
  "newReplyKeyboardMarkup text = ReplyKeyboardMarkup (map (\<lambda>row. [row]) text)"

definition newOneButtonInlineKeyboardMarkup :: "string \<Rightarrow> string \<Rightarrow> markup" where
  "newOneButtonInlineKeyboardMarkup text data = InlineKeyboardMarkup [[(text, data)]]"

definition responserCommandUser :: "string \<Rightarrow> user \<Rightarrow> App \<Rightarrow> error option \<times> user \<times> App" where
  "responserCommandUser command user app =
     (if command = cmd_start then
        (case send (NewMessage (uChatID user)
                      (''Greetings '' @ wave @ nl @ ''With my help, you can leave a '' @ dq @
                       btn_Review @ dq @ '' '' @ nl @ ''or ask a '' @ dq @ btn_Question @ dq)
                      (newReplyKeyboardMarkup (buttons UserMain))) app of
           (Some e, app1) \<Rightarrow> (Some e, user, app1)
         | (None, app1) \<Rightarrow> in_db (ChangeUserState SMain user) app1)
      else (None, user, app))"

definition responserCommandEmployee ::
  "string \<Rightarrow> user \<Rightarrow> App \<Rightarrow> error option \<times> user \<times> App" where
  "responserCommandEmployee command user app =
     (if command = cmd_start then
        (case send (NewMessage (uChatID user)
                      (''Greetings '' @ wave @ nl @ ''I implement customer feedback'' @ nl @
                       ''o receive questions click'' @ nl @ dq @ btn_Receive @ dq)
                      (newReplyKeyboardMarkup (buttons EmplMain))) app of
           (Some e, app1) \<Rightarrow> (Some e, user, app1)
         | (None, app1) \<Rightarrow> in_db (ChangeUserState SMain user) app1)
      else (None, user, app))"

definition responserCommand :: "string \<Rightarrow> user \<Rightarrow> App \<Rightarrow> error option \<times> user \<times> App" where
  "responserCommand command user app =
     (if uIsEmployee user then responserCommandEmployee command user app
      else responserCommandUser command user app)"

definition responserUser :: "user \<Rightarrow> App \<Rightarrow> error option \<times> App" where
  "responserUser user app =
     (if uState user = SMain then
        send (NewMessage (uChatID user)
                ''If you have any questions or review, I'm listening carefully''
                (newReplyKeyboardMarkup (buttons UserMain))) app
      else if uState user = SReview then
        send (NewMessage (uChatID user) ''Please rate from 1 to 5''
                (newReplyKeyboardMarkup (buttons UserStars))) app
      else if uState user = SReviewText then
        send (NewMessage (uChatID user)
                (''Thank you for your review'' @ nl @ ''You can also leave a comment'' @ nl @
                 ''Or press '' @ dq @ btn_Close @ dq)
                (newReplyKeyboardMarkup (buttons UserClose))) app
      else if uState user = SQuestion then
        send (NewMessage (uChatID user)
                (''Please ask your question'' @ nl @ ''Or click '' @ dq @ btn_Close @ dq)
                (newReplyKeyboardMarkup (buttons UserClose))) app
      else if uState user = SQuestionDiscussion then
        (case query (GetOpenQuestionByUser user) app of
           (None, app1) \<Rightarrow>
             send (NewMessage (uChatID user) ''Please reopen the question'' NoMarkup) app1
         | (Some question, app1) \<Rightarrow>
             send (NewMessage (uChatID user)
                     (''Your question #'' @ Itoa (int (qID question)) @ nl @
                      ''Thank you for your question'' @ nl @
                      ''An available employee will answer you shortly'') NoMarkup) app1)
      else (None, app))"

definition responserEmployee :: "user \<Rightarrow> App \<Rightarrow> error option \<times> user \<times> App" where
  "responserEmployee user app =
     (if uState user = SMain then
        (case send (NewMessage (uChatID user) ''Choose an action''
                      (if uIsReceiver user then newReplyKeyboardMarkup (buttons EmplMainR)
                       else newReplyKeyboardMarkup (buttons EmplMain))) app of
           (err, app1) \<Rightarrow> (err, user, app1))
      else if uState user = SReview then
        (case send (NewMessage (uChatID user) ''Select Interval''
                      (newReplyKeyboardMarkup (buttons EmplReview))) app of
           (err, app1) \<Rightarrow> (err, user, app1))
      else if uState user = SQuestion then
        (case send (NewMessage (uChatID user) ''No questions'' NoMarkup) app of
           (Some e, app1) \<Rightarrow> (Some e, user, app1)
         | (None, app1) \<Rightarrow> in_db (ChangeUserState SMain user) app1)
      else if uState user = SQuestionDiscussion then
        (case send (NewMessage (uChatID user) ''You have entered a chat with a user''
                      (newReplyKeyboardMarkup (buttons EmplExit))) app of
           (err, app1) \<Rightarrow> (err, user, app1))
      else if uState user = SSwitchReceiver then
        (case in_db (ChangeUserState SMain user) app of
           (Some e, user1, app1) \<Rightarrow> (Some e, user1, app1)
         | (None, user1, app1) \<Rightarrow>
             (if uIsReceiver user1 then
                (case in_db (ChangeUserIsReceiver False user1) app1 of
                   (Some e, user2, app2) \<Rightarrow> (Some e, user2, app2)
                 | (None, user2, app2) \<Rightarrow>
                     (case send (NewMessage (uChatID user2) ''You no longer receive questions''
                                   (newReplyKeyboardMarkup (buttons EmplMain))) app2 of
                        (err, app3) \<Rightarrow> (err, user2, app3)))
              else
                (case in_db (ChangeUserIsReceiver True user1) app1 of
                   (Some e, user2, app2) \<Rightarrow> (Some e, user2, app2)
                 | (None, user2, app2) \<Rightarrow>
                     (case send (NewMessage (uChatID user2) ''Now You receive questions''
                                   (newReplyKeyboardMarkup (buttons EmplMainR))) app2 of
                        (err, app3) \<Rightarrow> (err, user2, app3)))))
      else if uState user = SSearchQuestion then
        (case send (NewMessage (uChatID user) ''Enter question number''
                      (newReplyKeyboardMarkup (buttons EmplExit))) app of
           (err, app1) \<Rightarrow> (err, user, app1))
      else (None, user, app))"

definition responser :: "user \<Rightarrow> App \<Rightarrow> error option \<times> user \<times> App" where
  "responser user app =
     (if uIsEmployee user then responserEmployee user app
      else (case responserUser user app of (err, app1) \<Rightarrow> (err, user, app1)))"

text \<open>The claim offer of one question: its text and the one-button keyboard keyed by its id.\<close>

definition offer :: "user \<Rightarrow> question \<Rightarrow> chattable" where
  "offer to q =
     NewMessage (uChatID to) (''Question #'' @ Itoa (int (qID q)) @ nl @ qHeader q)
       (newOneButtonInlineKeyboardMarkup ''Take question''
          (Itoa CBQuestion @ ''-'' @ Itoa (int (qID q))))"

fun sendQuestions :: "user \<Rightarrow> client \<Rightarrow> question list \<Rightarrow> error option \<times> client" where
  "sendQuestions to tg [] = (None, tg)"
| "sendQuestions to tg (q # qs) =
     (case Send (offer to q) tg of
        (Some e, tg1) \<Rightarrow> (Some e, tg1)
      | (None, tg1) \<Rightarrow> sendQuestions to tg1 qs)"

definition sendCorrespondenceFromUser :: "question \<Rightarrow> message \<Rightarrow> client \<Rightarrow> error option \<times> client" where
  "sendCorrespondenceFromUser question message tg =
     Send (NewForward (uChatID (qAnswerer question)) (uChatID (qUser question))
             (mMessageID message)) tg"

definition sendCorrespondenceFromAnswerer ::
  "question \<Rightarrow> message \<Rightarrow> client \<Rightarrow> error option \<times> client" where
  "sendCorrespondenceFromAnswerer question message tg =
     Send (NewCopyMessage (uChatID (qUser question)) (uChatID (qAnswerer question))
             (mMessageID message)) tg"

text \<open>
  The replay loop of \<open>loadCorrespondence\<close> and \<open>loadFullQuestionById\<close>: each entry is
  forwarded to the requesting user from its sender's chat; the first failure ends it.
\<close>

definition forward_of :: "user \<Rightarrow> correspondence \<Rightarrow> chattable" where
  "forward_of user corr = NewForward (uChatID user) (uChatID (cUser corr)) (cMessageID corr)"

fun forward_each :: "user \<Rightarrow> correspondence list \<Rightarrow> client \<Rightarrow> error option \<times> client" where
  "forward_each user [] tg = (None, tg)"
| "forward_each user (corr # rest) tg =
     (case Send (forward_of user corr) tg of
        (Some e, tg1) \<Rightarrow> (Some e, tg1)
      | (None, tg1) \<Rightarrow> forward_each user rest tg1)"

definition loadCorrespondence :: "int \<Rightarrow> user \<Rightarrow> App \<Rightarrow> error option \<times> App" where
  "loadCorrespondence ident user app =
     (case query (GetNewQuestionById ident) app of
        (None, app1) \<Rightarrow>
          send (NewMessage (uChatID user) ''Question already taken'' NoMarkup) app1
      | (Some question, app1) \<Rightarrow>
          (case in_db (ChangeQuestionAnswerer (uID user) question) app1 of
             (Some e, _, app2) \<Rightarrow> (Some e, app2)
           | (None, question1, app2) \<Rightarrow>
               (case query (GetCorrespondenceByQuestion question1) app2 of
                  (correspondence, app3) \<Rightarrow> in_bot (forward_each user correspondence) app3)))"

text \<open>
  \<open>ratingInStars\<close>. The ratings the bot stores are 0 to 5; a negative one would make
  \<open>strings.Repeat\<close> panic.
\<close>

definition ratingInStars :: "int \<Rightarrow> string" where
  "ratingInStars rating = Repeat star (nat rating)"

text \<open>A loop of sends whose results are dropped.\<close>

fun send_each :: "chattable list \<Rightarrow> App \<Rightarrow> App" where
  "send_each [] app = app"
| "send_each (c # cs) app = send_each cs (snd (send c app))"

definition loadReviews :: "int \<Rightarrow> user \<Rightarrow> App \<Rightarrow> App" where
  "loadReviews interval user app =
     (let fDate = (Now app div 86400) * 86400 + 86400 in
      if interval = RAll then
        (case query GetCountReviewsByRating app of
           (counts, app1) \<Rightarrow>
             snd (send (NewMessage (uChatID user)
                          (concat (map (\<lambda>(i, r). ratingInStars (i + 1) @ '' - '' @ Itoa r @ nl)
                                       (zip [0, 1, 2, 3, 4] counts)))
                          NoMarkup) app1))
      else
        (let sDate = (if interval = RDay then fDate - 86400
                      else if interval = RWeek then fDate - 7 * 86400
                      else if interval = RMonth then MonthBefore app fDate
                      else - 62135596800)
         in (case query (GetReviewsInRange fDate sDate) app of
               (reviews', app1) \<Rightarrow>
                 send_each (map (\<lambda>r. NewMessage (uChatID user)
                                         (ratingInStars (rRating r) @ nl @ rText r) NoMarkup)
                                reviews') app1)))"

definition loadFullQuestionById :: "string \<Rightarrow> user \<Rightarrow> App \<Rightarrow> App" where
  "loadFullQuestionById ident user app =
     (case Atoi ident of
        Inl _ \<Rightarrow> snd (send (NewMessage (uChatID user) ''Wrong format'' NoMarkup) app)
      | Inr idInt \<Rightarrow>
          (case query (GetQuestionById idInt) app of
             (None, app1) \<Rightarrow>
               snd (send (NewMessage (uChatID user) ''Question not found'' NoMarkup) app1)
           | (Some question, app1) \<Rightarrow>
               (let app2 = snd (send (NewMessage (uChatID user) (qHeader question) NoMarkup) app1)
                in (case query (GetCorrespondenceByQuestion question) app2 of
                      (correspondence, app3) \<Rightarrow>
                        snd (in_bot (forward_each user correspondence) app3)))))"

section \<open>The update dispatcher (parsers.go)\<close>

text \<open>
  The block that ends most transitions: the prompt of the new state is sent and, when
  that fails, the state is written back (the result of that write is dropped) and the
  error returned.
\<close>

definition rollback :: "int \<Rightarrow> error option \<times> user \<times> App \<Rightarrow> error option \<times> App" where
  "rollback state r =
     (case r of
        (None, user, app) \<Rightarrow> (None, app)
      | (Some e, user, app) \<Rightarrow>
          (case in_db (ChangeUserState state user) app of (_, _, app1) \<Rightarrow> (Some e, app1)))"

text \<open>
  \<open>parseReview\<close>: the rating of a token (0 when the token is none of the ten), and the
  review row saved for it. The struct is given the user as \<open>User\<close> and no \<open>UserID\<close>;
  \<open>Save\<close> takes the key from the carried row.
\<close>

definition rating_of :: "string \<Rightarrow> int" where
  "rating_of rating =
     (if rating = Repeat star 1 \<or> rating = ''1'' then 1
      else if rating = Repeat star 2 \<or> rating = ''2'' then 2
      else if rating = Repeat star 3 \<or> rating = ''3'' then 3
      else if rating = Repeat star 4 \<or> rating = ''4'' then 4
      else if rating = Repeat star 5 \<or> rating = ''5'' then 5
      else 0)"

definition parseReview :: "string \<Rightarrow> user \<Rightarrow> App \<Rightarrow> error option \<times> App" where
  "parseReview rating user app =
     (case in_db (save_review \<lparr>rID = 0, rCreatedAt = 0, rRating = rating_of rating, rText = [],
                               rUserID = 0, rUser = user\<rparr>) app of
        (err, _, app1) \<Rightarrow> (err, app1))"

text \<open>
  \<open>splitCallbackData\<close>. \<open>Split\<close> returns at least one part, so \<open>parts[0]\<close> is
  always there; the first case below is never taken.
\<close>

definition splitCallbackData :: "callback_query \<Rightarrow> int \<times> string" where
  "splitCallbackData callback =
     (case Split (cbData callback) CHR ''-'' of
        [] \<Rightarrow> (0, [])
      | part0 # rest \<Rightarrow>
          (case Atoi part0 of
             Inl _ \<Rightarrow> (0, [])
           | Inr key \<Rightarrow> (case rest of [] \<Rightarrow> (key, []) | part1 # _ \<Rightarrow> (key, part1))))"

text \<open>The fan-out loop: every receiver is sent the questions; failures are dropped.\<close>

fun offer_each :: "user list \<Rightarrow> question list \<Rightarrow> client \<Rightarrow> client" where
  "offer_each [] qs tg = tg"
| "offer_each (receiver # rest) qs tg = offer_each rest qs (snd (sendQuestions receiver tg qs))"

definition is_rating_token :: "string \<Rightarrow> bool" where
  "is_rating_token t \<longleftrightarrow>
     t \<in> set [Repeat star 1, Repeat star 2, Repeat star 3, Repeat star 4, Repeat star 5,
              ''1'', ''2'', ''3'', ''4'', ''5'']"

subsection \<open>Messages of a customer\<close>

text \<open>
  The transition block that recurs in the handlers: the new state is written (an error
  of the write is returned at once), the prompt of the new state is sent, and a failure
  of that rolls the state back to the state named second.
\<close>

definition goto :: "int \<Rightarrow> int \<Rightarrow> user \<Rightarrow> App \<Rightarrow> error option \<times> App" where
  "goto state back user app =
     (case in_db (ChangeUserState state user) app of
        (Some e, _, app1) \<Rightarrow> (Some e, app1)
      | (None, user1, app1) \<Rightarrow> rollback back (responser user1 app1))"

definition parseMessageUser_Main :: "user \<Rightarrow> message \<Rightarrow> App \<Rightarrow> error option \<times> App" where
  "parseMessageUser_Main user message app =
     (if mText message = btn_Review then goto SReview SMain user app
      else if mText message = btn_Question then goto SQuestion SMain user app
      else (None, app))"

definition parseMessageUser_Review :: "user \<Rightarrow> message \<Rightarrow> App \<Rightarrow> error option \<times> App" where
  "parseMessageUser_Review user message app =
     (if is_rating_token (mText message) then
        (case parseReview (mText message) user app of
           (Some e, app1) \<Rightarrow> (Some e, app1)
         | (None, app1) \<Rightarrow> goto SReviewText SReview user app1)
      else (None, app))"

definition parseMessageUser_ReviewText :: "user \<Rightarrow> message \<Rightarrow> App \<Rightarrow> error option \<times> App" where
  "parseMessageUser_ReviewText user message app =
     (case query (ChangeTextReviewByUser (if mText message = btn_Close then ''-'' else mText message)
                    user) app of
        (Some e, app1) \<Rightarrow> (Some e, app1)
      | (None, app1) \<Rightarrow> goto SMain SReviewText user app1)"

definition parseMessageUser_Question :: "user \<Rightarrow> message \<Rightarrow> App \<Rightarrow> error option \<times> App" where
  "parseMessageUser_Question user message app =
     (if mText message = btn_Close then goto SMain SQuestion user app
      else
        (case in_db (AddQuestion (mText message) user) app of
           (Some e, _, app1) \<Rightarrow> (Some e, app1)
         | (None, question, app1) \<Rightarrow>
             (case query GetReceivers app1 of
                (receivers, app2) \<Rightarrow>
                  goto SQuestionDiscussion SQuestion user
                    (app2\<lparr>Bot := offer_each receivers [question] (Bot app2)\<rparr>))))"

definition parseMessageUser_Discussion :: "user \<Rightarrow> message \<Rightarrow> App \<Rightarrow> error option \<times> App" where
  "parseMessageUser_Discussion user message app =
     (if mText message = btn_Close then
        (case in_db (ChangeUserState SMain user) app of
           (Some e, _, app1) \<Rightarrow> (Some e, app1)
         | (None, user1, app1) \<Rightarrow>
             (case query (GetOpenQuestionByUser user1) app1 of
                (None, app2) \<Rightarrow> rollback SQuestionDiscussion (responser user1 app2)
              | (Some question, app2) \<Rightarrow>
                  (case in_db (AddCorrespondence user1 (mMessageID message)) app2 of
                     (Some e, _, app3) \<Rightarrow> (Some e, app3)
                   | (None, _, app3) \<Rightarrow>
                       (case in_db (ChangeQuestionIsClosed True question) app3 of
                          (Some e, _, app4) \<Rightarrow> (Some e, app4)
                        | (None, question1, app4) \<Rightarrow>
                            (if uID (qAnswerer question1) \<noteq> 0 then
                               (case in_bot (sendCorrespondenceFromUser question1 message) app4 of
                                  (Some e, app5) \<Rightarrow> (Some e, app5)
                                | (None, app5) \<Rightarrow>
                                    rollback SQuestionDiscussion (responser user1 app5))
                             else rollback SQuestionDiscussion (responser user1 app4))))))
      else
        (case query (GetOpenQuestionByUser user) app of
           (None, app1) \<Rightarrow> (None, app1)
         | (Some question, app1) \<Rightarrow>
             (case (if uID (qAnswerer question) \<noteq> 0
                    then in_bot (sendCorrespondenceFromUser question message) app1
                    else (None, app1)) of
                (Some e, app2) \<Rightarrow> (Some e, app2)
              | (None, app2) \<Rightarrow>
                  (case in_db (ChangeQuestionHaveAnswer False question) app2 of
                     (Some e, _, app3) \<Rightarrow> (Some e, app3)
                   | (None, _, app3) \<Rightarrow>
                       (case in_db (AddCorrespondence user (mMessageID message)) app3 of
                          (err, _, app4) \<Rightarrow> (err, app4))))))"

definition parseMessageUser :: "user \<Rightarrow> message \<Rightarrow> App \<Rightarrow> error option \<times> App" where
  "parseMessageUser user message app =
     (if uState user = SNew then
        (case in_db (ChangeUserState SMain user) app of (err, _, app1) \<Rightarrow> (err, app1))
      else if uState user = SMain then parseMessageUser_Main user message app
      else if uState user = SReview then parseMessageUser_Review user message app
      else if uState user = SReviewText then parseMessageUser_ReviewText user message app
      else if uState user = SQuestion then parseMessageUser_Question user message app
      else if uState user = SQuestionDiscussion then parseMessageUser_Discussion user message app
      else (None, app))"

subsection \<open>Messages of an employee\<close>

definition parseMessageEmployee_Main :: "user \<Rightarrow> message \<Rightarrow> App \<Rightarrow> error option \<times> App" where
  "parseMessageEmployee_Main user message app =
     (if mText message = btn_Receive \<or> mText message = btn_NotReceive then
        (case in_db (ChangeUserState SSwitchReceiver user) app of
           (Some e, _, app1) \<Rightarrow> (Some e, app1)
         | (None, user1, app1) \<Rightarrow> (case responser user1 app1 of (err, _, app2) \<Rightarrow> (err, app2)))
      else if mText message = btn_Open then
        (case query GetNewQuestions app of
           (questions', app1) \<Rightarrow>
             (if length questions' = 0 then
                (case in_db (ChangeUserState SQuestion user) app1 of
                   (Some e, _, app2) \<Rightarrow> (Some e, app2)
                 | (None, user1, app2) \<Rightarrow>
                     (case responser user1 app2 of (err, _, app3) \<Rightarrow> (err, app3)))
              else (None, snd (in_bot (\<lambda>tg. sendQuestions user tg questions') app1))))
      else if mText message = btn_Reviews then goto SReview SMain user app
      else if mText message = btn_Find then goto SSearchQuestion SMain user app
      else (None, app))"

definition parseMessageEmployee_Review :: "user \<Rightarrow> message \<Rightarrow> App \<Rightarrow> error option \<times> App" where
  "parseMessageEmployee_Review user message app =
     (if mText message = btn_Day then (None, loadReviews RDay user app)
      else if mText message = btn_Week then (None, loadReviews RWeek user app)
      else if mText message = btn_Month then (None, loadReviews RMonth user app)
      else if mText message = btn_All then (None, loadReviews RAll user app)
      else if mText message = btn_Back then goto SMain SQuestionDiscussion user app
      else (None, app))"

definition parseMessageEmployee_Discussion ::
  "user \<Rightarrow> message \<Rightarrow> App \<Rightarrow> error option \<times> App" where
  "parseMessageEmployee_Discussion user message app =
     (if mText message = btn_Back then
        (case in_db (ChangeUserState SMain user) app of
           (Some e, _, app1) \<Rightarrow> (Some e, app1)
         | (None, user1, app1) \<Rightarrow>
             (case query (GetOpenQuestionByAnswerer user1) app1 of
                (None, app2) \<Rightarrow> rollback SQuestionDiscussion (responser user1 app2)
              | (Some question, app2) \<Rightarrow>
                  (case in_db (ChangeQuestionAnswerer 0 question) app2 of
                     (Some e, _, app3) \<Rightarrow> (Some e, app3)
                   | (None, _, app3) \<Rightarrow> rollback SQuestionDiscussion (responser user1 app3))))
      else
        (case query (GetOpenQuestionByAnswerer user) app of
           (None, app1) \<Rightarrow> (None, app1)
         | (Some question, app1) \<Rightarrow>
             (case in_bot (sendCorrespondenceFromAnswerer question message) app1 of
                (Some e, app2) \<Rightarrow> (Some e, app2)
              | (None, app2) \<Rightarrow>
                  (case in_db (ChangeQuestionHaveAnswer True question) app2 of
                     (Some e, _, app3) \<Rightarrow> (Some e, app3)
                   | (None, _, app3) \<Rightarrow>
                       (case in_db (AddCorrespondence user (mMessageID message)) app3 of
                          (err, _, app4) \<Rightarrow> (err, app4))))))"

definition parseMessageEmployee_Search :: "user \<Rightarrow> message \<Rightarrow> App \<Rightarrow> error option \<times> App" where
  "parseMessageEmployee_Search user message app =
     (if mText message = btn_Back then goto SMain SSearchQuestion user app
      else (None, loadFullQuestionById (mText message) user app))"

definition parseMessageEmployee :: "user \<Rightarrow> message \<Rightarrow> App \<Rightarrow> error option \<times> App" where
  "parseMessageEmployee user message app =
     (if uState user = SNew then
        (case in_db (ChangeUserState SMain user) app of (err, _, app1) \<Rightarrow> (err, app1))
      else if uState user = SMain then parseMessageEmployee_Main user message app
      else if uState user = SReview then parseMessageEmployee_Review user message app
      else if uState user = SQuestionDiscussion
        then parseMessageEmployee_Discussion user message app
      else if uState user = SSearchQuestion then parseMessageEmployee_Search user message app
      else (None, app))"

subsection \<open>Commands, button presses, updates\<close>

definition parseCommand :: "message \<Rightarrow> App \<Rightarrow> bool \<times> error option \<times> App" where
  "parseCommand message app =
     (if mText message = cmd_start then
        (case in_db (AddUser (tgID (mFrom message)) (tgUserName (mFrom message)) SNew) app of
           (Some e, _, app1) \<Rightarrow> (True, Some e, app1)
         | (None, user, app1) \<Rightarrow>
             (case query (GetOpenQuestionByUser user) app1 of
                (None, app2) \<Rightarrow>
                  (case responserCommand (mText message) user app2 of
                     (err, _, app3) \<Rightarrow> (True, err, app3))
              | (Some question, app2) \<Rightarrow>
                  (case in_db (ChangeQuestionIsClosed True question) app2 of
                     (Some e, _, app3) \<Rightarrow> (True, Some e, app3)
                   | (None, _, app3) \<Rightarrow>
                       (case responserCommand (mText message) user app3 of
                          (err, _, app4) \<Rightarrow> (True, err, app4)))))
      else (False, None, app))"

definition parseMessage :: "message \<Rightarrow> App \<Rightarrow> error option \<times> App" where
  "parseMessage message app =
     (case parseCommand message app of
        (True, err, app1) \<Rightarrow> (err, app1)
      | (False, _, app1) \<Rightarrow>
          (case query (GetUserByChatID (tgID (mFrom message))) app1 of
             (None, app2) \<Rightarrow> (Some (UserNotFound (tgID (mFrom message))), app2)
           | (Some user, app2) \<Rightarrow>
               (if uIsEmployee user then parseMessageEmployee user message app2
                else parseMessageUser user message app2)))"

definition parseCallbackUser :: "user \<Rightarrow> callback_query \<Rightarrow> App \<Rightarrow> error option \<times> App" where
  "parseCallbackUser user callback app = (None, app)"

definition parseCallbackEmployee :: "user \<Rightarrow> callback_query \<Rightarrow> App \<Rightarrow> error option \<times> App" where
  "parseCallbackEmployee user callback app =
     (case splitCallbackData callback of
        (key, data) \<Rightarrow>
          (if uState user = SMain then
             (if key = CBQuestion then
                (case Atoi data of
                   Inl _ \<Rightarrow> (Some NoId, app)
                 | Inr ident \<Rightarrow>
                     (case loadCorrespondence ident user app of
                        (Some e, app1) \<Rightarrow> (Some e, app1)
                      | (None, app1) \<Rightarrow> goto SQuestionDiscussion SMain user app1))
              else (None, app))
           else (None, app)))"

definition parseCallback :: "callback_query \<Rightarrow> App \<Rightarrow> error option \<times> App" where
  "parseCallback callback app =
     (case query (GetUserByChatID (mChatID (cbMessage callback))) app of
        (None, app1) \<Rightarrow> (Some (UserNotFound (mChatID (cbMessage callback))), app1)
      | (Some user, app1) \<Rightarrow>
          (if uIsEmployee user then parseCallbackEmployee user callback app1
           else parseCallbackUser user callback app1))"

definition parseUpdate :: "update \<Rightarrow> App \<Rightarrow> error option \<times> App" where
  "parseUpdate upd app =
     (case (case Message upd of None \<Rightarrow> (None, app) | Some m \<Rightarrow> parseMessage m app) of
        (err1, app1) \<Rightarrow>
          (case (case CallbackQuery upd of
                   None \<Rightarrow> (err1, app1)
                 | Some cb \<Rightarrow> parseCallback cb app1) of
             (Some e, app2) \<Rightarrow> (Some e, app2)
           | (None, app2) \<Rightarrow>
               (case WriteConfig ((Conf app2)\<lparr>offset := UpdateID upd + 1\<rparr>) of
                  (err, c) \<Rightarrow> (err, app2\<lparr>Conf := c\<rparr>))))"

text \<open>
  One cycle of \<open>RunFetcher\<close> over the batch it fetched: the updates are parsed in
  order, and the first error ends the cycle.
\<close>

fun RunFetcher_batch :: "update list \<Rightarrow> App \<Rightarrow> App" where
  "RunFetcher_batch [] app = app"
| "RunFetcher_batch (upd # rest) app =
     (case parseUpdate upd app of
        (Some e, app1) \<Rightarrow> app1
      | (None, app1) \<Rightarrow> RunFetcher_batch rest app1)"

section \<open>Notions used in the statements\<close>

text \<open>
  The number of leading updates of a batch that \<open>RunFetcher\<close> parses without an error
  before the cycle ends.
\<close>

fun parsed_ok :: "update list \<Rightarrow> App \<Rightarrow> nat" where
  "parsed_ok [] app = 0"
| "parsed_ok (upd # rest) app =
     (case parseUpdate upd app of
        (Some e, app1) \<Rightarrow> 0
      | (None, app1) \<Rightarrow> Suc (parsed_ok rest app1))"


text \<open>
  The thread of a question in the store: its correspondence entries in the order of their
  keys, which is the order of their creation; and the forward that replays an entry to the
  user \<open>to\<close>: it names the chat of the row that the entry refers to as its sender.
\<close>

definition thread_of :: "nat \<Rightarrow> db \<Rightarrow> correspondence list" where
  "thread_of k d = sort_key cID (filter (\<lambda>c. cQuestionID c = k) (corrs d))"

definition replay_of :: "user \<Rightarrow> db \<Rightarrow> correspondence \<Rightarrow> chattable" where
  "replay_of to d c = NewForward (uChatID to) (uChatID (preload_user (cUserID c) d)) (cMessageID c)"

text \<open>
  A fault script makes the call that comes after \<open>n\<close> other calls fail.
\<close>

definition fails_at :: "bool list \<Rightarrow> nat \<Rightarrow> bool" where
  "fails_at fs n \<longleftrightarrow> fault (drop n fs)"

subsection \<open>One open question per asker\<close>

text \<open>
  The invariant of the data model: no asker has two open questions. The dispatcher keeps
  it through the conversation state: the asker of an open question is a customer in
  \<open>QuestionDiscussion\<close>. While a handler runs, the user \<open>a\<close> it serves may be out of
  step, so the invariant is also stated with \<open>a\<close> exempt.
\<close>

definition one_open_per_asker :: "db \<Rightarrow> bool" where
  "one_open_per_asker d \<longleftrightarrow>
     (\<forall>q\<in>set (questions d). \<forall>q'\<in>set (questions d).
        \<not> qIsClosed q \<and> \<not> qIsClosed q' \<and> qUserID q = qUserID q' \<longrightarrow> q = q')"

definition keys_ok :: "db \<Rightarrow> bool" where
  "keys_ok d \<longleftrightarrow>
     distinct (map uID (users d)) \<and> 0 \<notin> uID ` set (users d) \<and>
     distinct (map qID (questions d)) \<and> 0 \<notin> qID ` set (questions d)"

definition in_discussion :: "db \<Rightarrow> nat \<Rightarrow> bool" where
  "in_discussion d a \<longleftrightarrow>
     (\<exists>u\<in>set (users d). uID u = a \<and> uState u = SQuestionDiscussion \<and> \<not> uIsEmployee u)"

definition inv_ex :: "nat \<Rightarrow> db \<Rightarrow> bool" where
  "inv_ex a d \<longleftrightarrow>
     keys_ok d \<and> one_open_per_asker d \<and>
     (\<forall>q\<in>set (questions d). \<not> qIsClosed q \<longrightarrow> qUserID q = a \<or> in_discussion d (qUserID q))"

definition ask_inv :: "db \<Rightarrow> bool" where
  "ask_inv d \<longleftrightarrow>
     keys_ok d \<and> one_open_per_asker d \<and>
     (\<forall>q\<in>set (questions d). \<not> qIsClosed q \<longrightarrow> in_discussion d (qUserID q))"

definition none_open :: "nat \<Rightarrow> db \<Rightarrow> bool" where
  "none_open a d \<longleftrightarrow> (\<forall>q\<in>set (questions d). qUserID q = a \<longrightarrow> qIsClosed q)"

text \<open>
  A struct carries a row of the store, or none: then \<open>Save\<close> inserts no row for it.
\<close>

definition carried_ok :: "user \<Rightarrow> db \<Rightarrow> bool" where
  "carried_ok u d \<longleftrightarrow> u = zero_user \<or> uID u \<in> uID ` set (users d)"

definition no_faults :: "App \<Rightarrow> bool" where
  "no_faults app \<longleftrightarrow> db_faults (DB app) = [] \<and> bot_faults (Bot app) = []"

definition good :: "nat \<Rightarrow> App \<Rightarrow> bool" where
  "good a app \<longleftrightarrow> no_faults app \<and> inv_ex a (DB app) \<and> a \<in> uID ` set (users (DB app))"

text \<open>A part of a handler that keeps the exempt invariant and opens no question.\<close>

definition keeps :: "nat \<Rightarrow> App \<Rightarrow> App \<Rightarrow> bool" where
  "keeps a app app' \<longleftrightarrow>
     good a app' \<and> (\<forall>b. none_open b (DB app) \<longrightarrow> none_open b (DB app'))"

section \<open>Example states\<close>

text \<open>Concrete stores and events, used to run the dispatcher.\<close>

definition empty_app :: App where
  "empty_app = \<lparr>Bot = \<lparr>calls = [], bot_faults = []\<rparr>, DB = empty_db,
                 Conf = \<lparr>offset = 0, written_offset = 0, conf_faults = []\<rparr>,
                 Now = 0, MonthBefore = (\<lambda>t. t - 2678400)\<rparr>"

definition on_db :: "db \<Rightarrow> App" where
  "on_db d = empty_app\<lparr>DB := d\<rparr>"

definition text_from :: "int \<Rightarrow> string \<Rightarrow> int \<Rightarrow> string \<Rightarrow> message" where
  "text_from chat nick mid text =
     \<lparr>mMessageID = mid, mFrom = \<lparr>tgID = chat, tgUserName = nick\<rparr>, mChatID = chat, mText = text\<rparr>"

definition press_from :: "int \<Rightarrow> string \<Rightarrow> string \<Rightarrow> callback_query" where
  "press_from chat nick data = \<lparr>cbMessage = text_from chat nick 0 [], cbData = data\<rparr>"

text \<open>
  Ann (a customer, row 1) has asked question 1; Bob (row 2) and Eve (row 3) are employees
  who accept questions.
\<close>

definition ann :: user where
  "ann = \<lparr>uID = 1, uChatID = 10, uState = SQuestionDiscussion, uNickname = ''ann'',
          uIsEmployee = False, uIsReceiver = False\<rparr>"

definition bob :: user where
  "bob = \<lparr>uID = 2, uChatID = 20, uState = SMain, uNickname = ''bob'',
          uIsEmployee = True, uIsReceiver = True\<rparr>"

definition eve :: user where
  "eve = \<lparr>uID = 3, uChatID = 30, uState = SMain, uNickname = ''eve'',
          uIsEmployee = True, uIsReceiver = True\<rparr>"

definition question1 :: question where
  "question1 = zero_question\<lparr>qID := 1, qHeader := ''Why is my order late?'', qUserID := 1\<rparr>"


definition db_chat :: db where
  "db_chat = empty_db\<lparr>users := [ann, bob\<lparr>uState := SQuestionDiscussion\<rparr>, eve],
                        questions := [question1\<lparr>qAnswererID := 2\<rparr>]\<rparr>"

definition db_taken :: db where
  "db_taken = empty_db\<lparr>users := [ann, bob, eve\<lparr>uState := SQuestionDiscussion\<rparr>],
                         questions := [question1\<lparr>qAnswererID := 3\<rparr>]\<rparr>"

text \<open>A batch of two: Ann's \<open>/start\<close>, then a text from a chat the store does not know.\<close>

definition upd_start :: update where
  "upd_start = \<lparr>UpdateID = 7, Message = Some (text_from 10 ''ann'' 1 cmd_start),
                 CallbackQuery = None\<rparr>"

definition upd_unknown :: update where
  "upd_unknown = \<lparr>UpdateID = 8, Message = Some (text_from 99 ''zed'' 2 ''hello''),
                   CallbackQuery = None\<rparr>"


text \<open>
  The store \<open>db_chat\<close> with a second customer, Cat (row 4), who is about to ask a
  question.
\<close>

definition cat :: user where
  "cat = \<lparr>uID = 4, uChatID = 40, uState = SQuestion, uNickname = ''cat'',
          uIsEmployee = False, uIsReceiver = False\<rparr>"


text \<open>
  The run that breaks the invariant: Ann sends \<open>/start\<close>, the question button and her
  question; the gateway fails on the third request it gets, the prompt that follows the
  question. The cycle ends there, and the next cycle fetches the question again.
\<close>

definition upd_button :: update where
  "upd_button = \<lparr>UpdateID = 8, Message = Some (text_from 10 ''ann'' 2 btn_Question),
                  CallbackQuery = None\<rparr>"

definition upd_ask :: update where
  "upd_ask = \<lparr>UpdateID = 9, Message = Some (text_from 10 ''ann'' 3 ''Why is my order late?''),
               CallbackQuery = None\<rparr>"

definition flaky_app :: App where
  "flaky_app = empty_app\<lparr>Bot := \<lparr>calls = [], bot_faults = [False, False, True]\<rparr>\<rparr>"


text \<open>
  Ann has no user name and is in the main menu, Bob accepts questions, and Cat is about to
  ask one.
\<close>

definition db_nameless :: db where
  "db_nameless = empty_db\<lparr>users := [ann\<lparr>uNickname := [], uState := SMain\<rparr>, bob, eve, cat]\<rparr>"

section \<open>Basic facts\<close>

lemma fault_Nil [simp]: "fault [] = False"
  by (simp add: fault_def)

lemma Split_not_Nil: "Split s c \<noteq> []"
  by (induction s) (auto split: list.splits)

lemma itoa_nat_digit: "n < 10 \<Longrightarrow> itoa_nat n = [digit_char n]"
  by (simp add: itoa_nat.simps)

lemma fold_max_ge: "(k::nat) \<in> set ids \<or> k \<le> m \<Longrightarrow> k \<le> fold max ids m"
proof (induction ids arbitrary: m)
  case Nil
  then show ?case by simp
next
  case (Cons a ids)
  from Cons.prems have "k \<in> set ids \<or> k \<le> max a m" by auto
  then show ?case using Cons.IH [of "max a m"] by simp
qed

lemma fresh_id_gt: "k \<in> set ids \<Longrightarrow> k < fresh_id ids"
  using fold_max_ge [of k ids 0] by (simp add: fresh_id_def)

lemma fresh_id_pos [simp]: "fresh_id ids \<noteq> 0"
  by (simp add: fresh_id_def)

lemma upsert_fresh: "upsert key r rows = rows @ [r]" if "key r = fresh_id (map key rows)"
proof -
  have "\<not> list_ex (\<lambda>x. key x = key r) rows"
    using fresh_id_gt [of _ "map key rows"] that by (fastforce simp: list_ex_iff)
  then show ?thesis by (simp add: upsert_def)
qed

subsection \<open>What a query leaves behind\<close>

lemma consume_nf: "db_faults d = [] \<Longrightarrow> consume d = d"
  by (cases d) (simp add: consume_def)

lemma consume_fields [simp]:
  "users (consume d) = users d" "questions (consume d) = questions d"
  "reviews (consume d) = reviews d" "corrs (consume d) = corrs d" "db_now (consume d) = db_now d"
  "db_faults (consume d) = tl (db_faults d)"
  by (simp_all add: consume_def)

lemma First_snd [simp]: "snd (snd (First key P rows dest d)) = consume d"
  by (simp add: First_def split: option.splits)

lemma Find_snd [simp]: "snd (snd (Find selected d)) = consume d"
  by (simp add: Find_def)

lemma Find_ok: "\<not> fault (db_faults d) \<Longrightarrow> Find selected d = (None, selected, consume d)"
  by (simp add: Find_def)

lemma First_ok:
  "\<not> fault (db_faults d) \<Longrightarrow>
     First key P rows dest d =
       (case first_by key P rows of
          None \<Rightarrow> (Some RecordNotFound, dest, consume d)
        | Some r \<Rightarrow> (None, r, consume d))"
  by (simp add: First_def)

lemma query_snd:
  "snd (f (DB app)) = d \<Longrightarrow> query f app = (fst (f (DB app)), app\<lparr>DB := d\<rparr>)"
  by (auto simp: query_def split: prod.splits)

lemma Get_snd [simp]:
  "snd (GetReceivers d) = consume d"
  "snd (GetUserByChatID c d) = consume d"
  "snd (GetEmptyReview u d) = consume d"
  "snd (GetReviewsInRange f s d) = consume d"
  "snd (GetQuestionById i d) = consume d"
  "snd (GetOpenQuestionByUser u d) = consume d"
  "snd (GetOpenQuestionByAnswerer u d) = consume d"
  "snd (GetNewQuestionById i d) = consume d"
  "snd (GetNewQuestions d) = consume d"
  "snd (GetCorrespondenceByQuestion q d) = consume d"
  by (simp_all add: GetReceivers_def GetUserByChatID_def GetEmptyReview_def GetReviewsInRange_def
        GetQuestionById_def GetOpenQuestionByUser_def GetOpenQuestionByAnswerer_def
        GetNewQuestionById_def GetNewQuestions_def GetCorrespondenceByQuestion_def
        First_def Find_def split: option.splits)

lemma app_DB_same [simp]: "app\<lparr>DB := DB app\<rparr> = app"
  by (cases app) simp

lemma fails_at_0 [simp]: "fails_at fs 0 = fault fs"
  by (simp add: fails_at_def)

lemma fails_at_Suc [simp]: "fails_at fs (Suc n) = fails_at (tl fs) n"
  by (simp add: fails_at_def drop_Suc)

lemma fails_at_Nil [simp]: "fails_at [] n = False"
  by (simp add: fails_at_def)

section \<open>The handlers leave the configuration alone\<close>

lemma send_Conf: "send c app = (e, app') \<Longrightarrow> Conf app' = Conf app"
  by (auto simp: send_def split: prod.splits)

lemma in_db_Conf: "in_db f app = (e, x, app') \<Longrightarrow> Conf app' = Conf app"
  by (auto simp: in_db_def split: prod.splits)

lemma query_Conf: "query f app = (x, app') \<Longrightarrow> Conf app' = Conf app"
  by (auto simp: query_def split: prod.splits)

lemma snd_query_Conf [simp]: "Conf (snd (query f app)) = Conf app"
  by (cases "query f app") (simp add: query_Conf)

lemma in_bot_Conf: "in_bot f app = (e, app') \<Longrightarrow> Conf app' = Conf app"
  by (auto simp: in_bot_def split: prod.splits)

lemma snd_send_Conf [simp]: "Conf (snd (send c app)) = Conf app"
  by (cases "send c app") (simp add: send_Conf)

lemma snd_in_bot_Conf [simp]: "Conf (snd (in_bot f app)) = Conf app"
  by (cases "in_bot f app") (simp add: in_bot_Conf)

lemma send_each_Conf [simp]: "Conf (send_each cs app) = Conf app"
  by (induction cs arbitrary: app) simp_all

lemma responserCommand_Conf: "responserCommand c u app = (e, u', app') \<Longrightarrow> Conf app' = Conf app"
  by (auto simp: responserCommand_def responserCommandUser_def responserCommandEmployee_def
           split: if_splits prod.splits option.splits dest!: send_Conf in_db_Conf)

lemma responserUser_Conf: "responserUser u app = (e, app') \<Longrightarrow> Conf app' = Conf app"
  by (auto simp: responserUser_def split: if_splits option.splits prod.splits
           dest!: send_Conf query_Conf)

lemma responserEmployee_Conf: "responserEmployee u app = (e, u', app') \<Longrightarrow> Conf app' = Conf app"
  by (auto simp: responserEmployee_def
           split: if_splits prod.splits option.splits dest!: send_Conf in_db_Conf)

lemma responser_Conf: "responser u app = (e, u', app') \<Longrightarrow> Conf app' = Conf app"
  by (auto simp: responser_def split: if_splits prod.splits
           dest!: responserUser_Conf responserEmployee_Conf)

lemma rollback_Conf: "rollback s (e0, u, app) = (e, app') \<Longrightarrow> Conf app' = Conf app"
  by (auto simp: rollback_def split: option.splits prod.splits dest!: in_db_Conf)

lemma rollback_responser_Conf:
  "rollback s (responser u app) = (e, app') \<Longrightarrow> Conf app' = Conf app"
  by (cases "responser u app") (auto dest!: rollback_Conf responser_Conf)

lemma goto_Conf: "goto s b u app = (e, app') \<Longrightarrow> Conf app' = Conf app"
  unfolding goto_def
  by (auto split: option.splits prod.splits dest!: in_db_Conf rollback_responser_Conf)

lemma loadCorrespondence_Conf: "loadCorrespondence i u app = (e, app') \<Longrightarrow> Conf app' = Conf app"
  by (auto simp: loadCorrespondence_def split: option.splits prod.splits
           dest!: send_Conf in_db_Conf in_bot_Conf query_Conf)

lemma loadReviews_Conf [simp]: "Conf (loadReviews i u app) = Conf app"
  by (auto simp: loadReviews_def Let_def split: prod.splits dest!: query_Conf)

lemma loadFullQuestionById_Conf [simp]: "Conf (loadFullQuestionById t u app) = Conf app"
  by (auto simp: loadFullQuestionById_def Let_def split: sum.splits option.splits prod.splits
           dest!: query_Conf)

lemma parseReview_Conf: "parseReview t u app = (e, app') \<Longrightarrow> Conf app' = Conf app"
  by (auto simp: parseReview_def split: prod.splits dest!: in_db_Conf)

lemma parseMessageUser_Conf: "parseMessageUser u m app = (e, app') \<Longrightarrow> Conf app' = Conf app"
  unfolding parseMessageUser_def parseMessageUser_Main_def parseMessageUser_Review_def
    parseMessageUser_ReviewText_def parseMessageUser_Question_def parseMessageUser_Discussion_def
  by (auto split: if_splits prod.splits option.splits
           dest!: in_db_Conf in_bot_Conf query_Conf goto_Conf parseReview_Conf
                  rollback_responser_Conf)

lemma parseMessageEmployee_Conf:
  "parseMessageEmployee u m app = (e, app') \<Longrightarrow> Conf app' = Conf app"
  unfolding parseMessageEmployee_def parseMessageEmployee_Main_def parseMessageEmployee_Review_def
    parseMessageEmployee_Discussion_def parseMessageEmployee_Search_def
  by (auto simp: Let_def split: if_splits prod.splits option.splits
           dest!: in_db_Conf in_bot_Conf query_Conf goto_Conf rollback_responser_Conf
                  responser_Conf)

lemma parseCommand_Conf: "parseCommand m app = (c, e, app') \<Longrightarrow> Conf app' = Conf app"
  unfolding parseCommand_def
  by (auto split: if_splits prod.splits option.splits
           dest!: in_db_Conf query_Conf responserCommand_Conf)

lemma parseMessage_Conf: "parseMessage m app = (e, app') \<Longrightarrow> Conf app' = Conf app"
  unfolding parseMessage_def
  by (auto split: if_splits prod.splits option.splits bool.splits
           dest!: parseCommand_Conf query_Conf parseMessageUser_Conf parseMessageEmployee_Conf)

lemma parseCallback_Conf: "parseCallback cb app = (e, app') \<Longrightarrow> Conf app' = Conf app"
  unfolding parseCallback_def parseCallbackEmployee_def parseCallbackUser_def
  by (auto split: if_splits prod.splits option.splits sum.splits
           dest!: query_Conf loadCorrespondence_Conf goto_Conf)

section \<open>Facts about the gateway and the store\<close>

lemma Send_cases:
  "Send c tg = (err, tg') \<Longrightarrow>
     (err = None \<and> delivered tg' = delivered tg @ [c]) \<or>
     (err \<noteq> None \<and> delivered tg' = delivered tg)"
  by (auto simp: Send_def delivered_def split: if_splits)

lemma forward_each_prefix:
  "forward_each user cs tg = (err, tg') \<Longrightarrow>
     \<exists>k\<le>length cs. delivered tg' = delivered tg @ map (forward_of user) (take k cs) \<and>
                     (err = None \<longleftrightarrow> k = length cs)"
proof (induction cs arbitrary: tg)
  case Nil
  then show ?case by simp
next
  case (Cons c cs)
  obtain e1 tg1 where s: "Send (forward_of user c) tg = (e1, tg1)"
    by (cases "Send (forward_of user c) tg")
  show ?case
  proof (cases e1)
    case None
    with s Cons.prems have r: "forward_each user cs tg1 = (err, tg')" by simp
    from Send_cases [OF s] None have d: "delivered tg1 = delivered tg @ [forward_of user c]"
      by simp
    from Cons.IH [OF r] obtain k where k: "k \<le> length cs"
      "delivered tg' = delivered tg1 @ map (forward_of user) (take k cs)"
      "err = None \<longleftrightarrow> k = length cs"
      by blast
    show ?thesis
      by (rule exI [of _ "Suc k"]) (use k d in simp)
  next
    case (Some e)
    with s Cons.prems have "err = Some e" "tg' = tg1" by simp_all
    moreover from Send_cases [OF s] Some have "delivered tg1 = delivered tg" by simp
    ultimately show ?thesis
      by (intro exI [of _ 0]) simp
  qed
qed





lemma GetCorrespondenceByQuestion_ok:
  "\<not> fault (db_faults d) \<Longrightarrow>
     GetCorrespondenceByQuestion q d =
       (map (\<lambda>c. c\<lparr>cUser := preload_user (cUserID c) d\<rparr>) (thread_of (qID q) d), consume d)"
  by (simp add: GetCorrespondenceByQuestion_def Find_ok thread_of_def)


lemma preload_user_cong: "users d' = users d \<Longrightarrow> preload_user k d' = preload_user k d"
  by (simp add: preload_user_def)

lemma thread_of_cong: "corrs d' = corrs d \<Longrightarrow> thread_of k d' = thread_of k d"
  by (simp add: thread_of_def)

lemma first_by_Some_set: "first_by key P rows = Some r \<Longrightarrow> r \<in> set rows \<and> P r"
proof -
  assume "first_by key P rows = Some r"
  then obtain rest where "sort_key key (filter P rows) = r # rest"
    by (auto simp: first_by_def split: list.splits)
  then have "r \<in> set (sort_key key (filter P rows))"
    by (simp only: list.set_intros)
  then show ?thesis by simp
qed

lemma first_by_None: "first_by key P rows = None \<longleftrightarrow> (\<forall>r\<in>set rows. \<not> P r)"
proof -
  have "first_by key P rows = None \<longleftrightarrow> sort_key key (filter P rows) = []"
    by (simp add: first_by_def split: list.splits)
  also have "\<dots> \<longleftrightarrow> set (sort_key key (filter P rows)) = {}"
    by (simp only: set_empty)
  also have "\<dots> \<longleftrightarrow> (\<forall>r\<in>set rows. \<not> P r)"
    by auto
  finally show ?thesis .
qed

lemma GetNewQuestionById_Some:
  assumes "fst (GetNewQuestionById ident d) = Some q"
  shows "\<not> fault (db_faults d)" and "int (qID q) = ident" and "is_new q" and "qID q \<noteq> 0"
    and "qUser q = zero_user" and "qAnswerer q = zero_user"
    and "\<exists>q0\<in>set (questions d). q = question_row q0"
proof -
  show nf: "\<not> fault (db_faults d)"
    using assms by (auto simp: GetNewQuestionById_def First_def)
  from assms nf have f: "first_by qID (\<lambda>q. int (qID q) = ident \<and> is_new q)
      (map question_row (questions d)) = Some q" and z: "qID q \<noteq> 0"
    by (auto simp: GetNewQuestionById_def First_ok split: option.splits if_splits)
  from first_by_Some_set [OF f] have m: "q \<in> set (map question_row (questions d))"
    and p: "int (qID q) = ident \<and> is_new q" by simp_all
  from p show "int (qID q) = ident" "is_new q" by simp_all
  from z show "qID q \<noteq> 0" .
  from m show "\<exists>q0\<in>set (questions d). q = question_row q0" by auto
  then show "qUser q = zero_user" "qAnswerer q = zero_user"
    by (auto simp: question_row_def)
qed

lemma list_ex_key: "list_ex (\<lambda>x. key x = k) rows \<longleftrightarrow> k \<in> key ` set rows"
  by (auto simp: list_ex_iff)

lemma save_carried_zero [simp]: "save_carried zero_user rows = (zero_user, rows)"
  by (simp add: save_carried_def)

lemma save_carried_ok:
  "carried_ok u d \<Longrightarrow> 0 \<notin> uID ` set (users d) \<Longrightarrow> save_carried u (users d) = (u, users d)"
  by (auto simp: save_carried_def carried_ok_def list_ex_key)

lemma belongs_to_zero [simp]: "belongs_to k zero_user u = k"
  by (simp add: belongs_to_def)

lemma users_same [simp]: "d\<lparr>users := users d\<rparr> = d"
  by (cases d) simp

lemma save_question_ok:
  assumes "\<not> fault (db_faults d)" and "qID q \<noteq> 0"
    and "carried_ok (qUser q) d" and "carried_ok (qAnswerer q) d" and "0 \<notin> uID ` set (users d)"
  shows "save_question q d =
           (None, q\<lparr>qUserID := belongs_to (qUserID q) (qUser q) (qUser q),
                     qAnswererID := belongs_to (qAnswererID q) (qAnswerer q) (qAnswerer q)\<rparr>,
            (consume d)\<lparr>questions :=
               upsert qID (question_row
                 (q\<lparr>qUserID := belongs_to (qUserID q) (qUser q) (qUser q),
                    qAnswererID := belongs_to (qAnswererID q) (qAnswerer q) (qAnswerer q)\<rparr>))
                 (questions d)\<rparr>)"
  using assms by (simp add: save_question_def save_carried_ok consume_def Let_def)






lemma AddQuestion_ok:
  assumes "\<not> fault (db_faults d)"
  shows "\<exists>q. AddQuestion text u d = (None, q, (consume d)\<lparr>questions := questions d @ [q]\<rparr>) \<and>
             q = zero_question\<lparr>qID := fresh_id (map qID (questions d)), qUserID := uID u,
                                qHeader := text\<rparr>"
  using assms
  by (simp add: AddQuestion_def save_question_def zero_question_def question_row_def upsert_fresh
      Let_def consume_def)

lemma GetUserByChatID_Some:
  assumes "fst (GetUserByChatID c d) = Some u"
  shows "u \<in> set (users d) \<and> uChatID u = c \<and> uID u \<noteq> 0 \<and> \<not> fault (db_faults d)"
proof -
  have nf: "\<not> fault (db_faults d)"
    using assms by (auto simp: GetUserByChatID_def First_def)
  with assms have "first_by uID (\<lambda>u. uChatID u = c) (users d) = Some u" "uID u \<noteq> 0"
    by (auto simp: GetUserByChatID_def First_ok split: option.splits if_splits)
  with first_by_Some_set [of uID "\<lambda>u. uChatID u = c" "users d" u] nf show ?thesis by simp
qed

lemma query_Get:
  "query (GetUserByChatID c) app = (fst (GetUserByChatID c (DB app)), app\<lparr>DB := consume (DB app)\<rparr>)"
  "query (GetOpenQuestionByUser u) app =
     (fst (GetOpenQuestionByUser u (DB app)), app\<lparr>DB := consume (DB app)\<rparr>)"
  "query (GetOpenQuestionByAnswerer u) app =
     (fst (GetOpenQuestionByAnswerer u (DB app)), app\<lparr>DB := consume (DB app)\<rparr>)"
  "query (GetNewQuestionById i) app =
     (fst (GetNewQuestionById i (DB app)), app\<lparr>DB := consume (DB app)\<rparr>)"
  "query (GetQuestionById i) app =
     (fst (GetQuestionById i (DB app)), app\<lparr>DB := consume (DB app)\<rparr>)"
  "query (GetCorrespondenceByQuestion q) app =
     (fst (GetCorrespondenceByQuestion q (DB app)), app\<lparr>DB := consume (DB app)\<rparr>)"
  "query GetReceivers app = (fst (GetReceivers (DB app)), app\<lparr>DB := consume (DB app)\<rparr>)"
  "query GetNewQuestions app = (fst (GetNewQuestions (DB app)), app\<lparr>DB := consume (DB app)\<rparr>)"
  "query (GetReviewsInRange f s) app =
     (fst (GetReviewsInRange f s (DB app)), app\<lparr>DB := consume (DB app)\<rparr>)"
  by (simp_all add: query_snd)

lemma parseMessage_text:
  "mText m \<noteq> cmd_start \<Longrightarrow> fst (GetUserByChatID (tgID (mFrom m)) (DB app)) = Some u \<Longrightarrow>
     parseMessage m app =
       (if uIsEmployee u then parseMessageEmployee u m (app\<lparr>DB := consume (DB app)\<rparr>)
        else parseMessageUser u m (app\<lparr>DB := consume (DB app)\<rparr>))"
  by (simp add: parseMessage_def parseCommand_def query_Get)

section \<open>Requests added by a step\<close>










section \<open>Rows under an update\<close>

lemma upsert_present:
  "r0 \<in> set rows \<Longrightarrow> key r = key r0 \<Longrightarrow>
     upsert key r rows = map (\<lambda>x. if key x = key r then r else x) rows"
  by (auto simp: upsert_def list_ex_iff)

lemma save_user_ok:
  "\<not> fault (db_faults d) \<Longrightarrow> uID u \<noteq> 0 \<Longrightarrow>
     save_user u d = (None, u, (consume d)\<lparr>users := upsert uID u (users d)\<rparr>)"
  by (simp add: save_user_def)

lemma label_distinct [simp]:
  "btn_Back \<noteq> cmd_start" "btn_Close \<noteq> cmd_start" "cmd_start \<noteq> btn_Back" "cmd_start \<noteq> btn_Close"
  by (simp_all add: label_defs back_arrow_def cross_def)

section \<open>Keeping one open question per asker\<close>

lemma map_replace_keys:
  "key r = k \<Longrightarrow> map key (map (\<lambda>x. if key x = k then r else x) rows) = map key rows"
  by (induction rows) auto

lemma ask_inv_ex: "ask_inv d \<Longrightarrow> inv_ex a d"
  by (auto simp: ask_inv_def inv_ex_def)

lemma inv_ex_none_open: "inv_ex a d \<Longrightarrow> none_open a d \<Longrightarrow> ask_inv d"
  by (auto simp: ask_inv_def inv_ex_def none_open_def)

lemma inv_ex_in_discussion: "inv_ex a d \<Longrightarrow> in_discussion d a \<Longrightarrow> ask_inv d"
  by (auto simp: ask_inv_def inv_ex_def)

lemma ask_inv_none_open:
  assumes "ask_inv d" and "u \<in> set (users d)"
    and "uState u \<noteq> SQuestionDiscussion \<or> uIsEmployee u"
  shows "none_open (uID u) d"
proof -
  have "qIsClosed q" if q: "q \<in> set (questions d)" "qUserID q = uID u" for q
  proof (rule ccontr)
    assume "\<not> qIsClosed q"
    with assms(1) q obtain v where v: "v \<in> set (users d)" "uID v = uID u"
      "uState v = SQuestionDiscussion" "\<not> uIsEmployee v"
      by (auto simp: ask_inv_def in_discussion_def)
    from assms(1) have "distinct (map uID (users d))" by (simp add: ask_inv_def keys_ok_def)
    with v(1,2) assms(2) have "v = u" by (auto simp: distinct_map inj_on_def)
    with v assms(3) show False by simp
  qed
  then show ?thesis by (simp add: none_open_def)
qed

text \<open>Replacing the row of the exempt user.\<close>

lemma inv_ex_user:
  assumes "inv_ex a d" and "u0 \<in> set (users d)" and "uID u0 = a" and "uID u' = a"
    and "users d' = upsert uID u' (users d)" and "questions d' = questions d"
  shows "inv_ex a d'" and "a \<in> uID ` set (users d')" and "u' \<in> set (users d')"
proof -
  have m: "users d' = map (\<lambda>x. if uID x = a then u' else x) (users d)"
    using assms(5) upsert_present [OF assms(2), of uID u'] assms(3,4) by simp
  have k: "map uID (users d') = map uID (users d)"
    unfolding m using assms(4) by (rule map_replace_keys)
  have "(\<lambda>x. if uID x = a then u' else x) u0 = u'" using assms(3) by simp
  with assms(2) show i: "u' \<in> set (users d')"
    unfolding m set_map by (rule rev_image_eqI [OF _ sym])
  then show "a \<in> uID ` set (users d')" using assms(4) by force
  have keys: "keys_ok d'"
    using assms(1,6) k by (simp add: inv_ex_def keys_ok_def) (metis list.set_map)
  have one: "one_open_per_asker d'"
    using assms(1,6) by (simp add: inv_ex_def one_open_per_asker_def)
  have "qUserID q = a \<or> in_discussion d' (qUserID q)"
    if q: "q \<in> set (questions d')" "\<not> qIsClosed q" for q
  proof (cases "qUserID q = a")
    case True
    then show ?thesis by simp
  next
    case False
    with assms(1,6) q obtain v where v: "v \<in> set (users d)" "uID v = qUserID q"
      "uState v = SQuestionDiscussion" "\<not> uIsEmployee v"
      by (auto simp: inv_ex_def in_discussion_def)
    with False have "(\<lambda>x. if uID x = a then u' else x) v = v" by simp
    with v(1) have "v \<in> set (users d')"
      unfolding m set_map by (rule rev_image_eqI [OF _ sym])
    with v show ?thesis by (auto simp: in_discussion_def)
  qed
  with keys one show "inv_ex a d'" by (simp add: inv_ex_def)
qed

text \<open>Rewriting a question without reopening it or changing its asker.\<close>

lemma inv_ex_question:
  assumes "inv_ex a d" and "q0 \<in> set (questions d)" and "qID q' = qID q0"
    and "qUserID q' = qUserID q0" and "qIsClosed q0 \<longrightarrow> qIsClosed q'"
    and "questions d' = upsert qID q' (questions d)" and "users d' = users d"
  shows "inv_ex a d'" and "none_open b d \<Longrightarrow> none_open b d'"
proof -
  let ?f = "\<lambda>x. if qID x = qID q0 then q' else x"
  have m: "questions d' = map ?f (questions d)"
    using assms(6) upsert_present [OF assms(2), of qID q'] assms(3) by simp
  have k: "map qID (questions d') = map qID (questions d)"
    unfolding m using assms(3) by (rule map_replace_keys)
  from assms(1) have dist: "distinct (map qID (questions d))"
    by (simp add: inv_ex_def keys_ok_def)
  have only: "x = q0" if "x \<in> set (questions d)" "qID x = qID q0" for x
    using dist that assms(2) by (auto simp: distinct_map inj_on_def)
  have pre: "\<exists>y\<in>set (questions d). x = ?f y \<and> qUserID y = qUserID x \<and>
                (\<not> qIsClosed x \<longrightarrow> \<not> qIsClosed y)"
    if "x \<in> set (questions d')" for x
  proof -
    from that obtain y where y: "y \<in> set (questions d)" "x = ?f y"
      unfolding m by auto
    show ?thesis
    proof (cases "qID y = qID q0")
      case True
      with only y(1) have "y = q0" by simp
      with y True assms(4,5) show ?thesis by auto
    next
      case False
      with y show ?thesis by auto
    qed
  qed
  have keys: "keys_ok d'"
    using assms(1,7) k by (simp add: inv_ex_def keys_ok_def) (metis list.set_map)
  have one: "one_open_per_asker d'"
    unfolding one_open_per_asker_def
  proof (intro ballI impI)
    fix x y
    assume x: "x \<in> set (questions d')" and y: "y \<in> set (questions d')"
      and o: "\<not> qIsClosed x \<and> \<not> qIsClosed y \<and> qUserID x = qUserID y"
    from pre [OF x] obtain x0 where x0: "x0 \<in> set (questions d)" "x = ?f x0"
      "qUserID x0 = qUserID x" "\<not> qIsClosed x \<longrightarrow> \<not> qIsClosed x0" by blast
    from pre [OF y] obtain y0 where y0: "y0 \<in> set (questions d)" "y = ?f y0"
      "qUserID y0 = qUserID y" "\<not> qIsClosed y \<longrightarrow> \<not> qIsClosed y0" by blast
    from assms(1) x0 y0 o have "x0 = y0"
      by (simp add: inv_ex_def one_open_per_asker_def)
    with x0(2) y0(2) show "x = y" by simp
  qed
  have "qUserID x = a \<or> in_discussion d' (qUserID x)"
    if x: "x \<in> set (questions d')" "\<not> qIsClosed x" for x
  proof -
    from pre [OF x(1)] x(2) obtain x0 where "x0 \<in> set (questions d)"
      "qUserID x0 = qUserID x" "\<not> qIsClosed x0" by blast
    with assms(1,7) show ?thesis by (auto simp: inv_ex_def in_discussion_def)
  qed
  with keys one show "inv_ex a d'" by (simp add: inv_ex_def)
  show "none_open b d'" if n: "none_open b d"
    unfolding none_open_def
  proof (intro ballI impI)
    fix x assume x: "x \<in> set (questions d')" "qUserID x = b"
    from pre [OF x(1)] obtain x0 where "x0 \<in> set (questions d)"
      "qUserID x0 = qUserID x" "\<not> qIsClosed x \<longrightarrow> \<not> qIsClosed x0" by blast
    with n x(2) show "qIsClosed x" by (auto simp: none_open_def)
  qed
qed

text \<open>Closing the open question that was fetched for the asker leaves the asker none.\<close>

lemma close_none_open:
  assumes "inv_ex a d" and "q0 \<in> set (questions d)" and "qUserID q0 = a" and "\<not> qIsClosed q0"
    and "qID q' = qID q0" and "qIsClosed q'"
    and "questions d' = upsert qID q' (questions d)"
  shows "none_open a d'"
proof -
  let ?f = "\<lambda>x. if qID x = qID q0 then q' else x"
  have m: "questions d' = map ?f (questions d)"
    using assms(7) upsert_present [OF assms(2), of qID q'] assms(5) by simp
  show ?thesis
    unfolding none_open_def
  proof (intro ballI impI)
    fix x assume x: "x \<in> set (questions d')" "qUserID x = a"
    then obtain y where y: "y \<in> set (questions d)" "x = ?f y"
      unfolding m by auto
    show "qIsClosed x"
    proof (cases "qID y = qID q0")
      case True
      with y assms(6) show ?thesis by simp
    next
      case False
      with y have xy: "x = y" by simp
      show ?thesis
      proof (rule ccontr)
        assume "\<not> qIsClosed x"
        with assms(1,2,3,4) y(1) x(2) xy have "y = q0"
          by (simp add: inv_ex_def one_open_per_asker_def)
        with False show False by simp
      qed
    qed
  qed
qed

text \<open>Appending a first open question for the exempt user.\<close>

lemma inv_ex_new_question:
  assumes "inv_ex a d" and "none_open a d" and "qUserID q = a"
    and "qID q = fresh_id (map qID (questions d))"
    and "questions d' = questions d @ [q]" and "users d' = users d"
  shows "inv_ex a d'"
proof -
  have f: "qID q \<notin> set (map qID (questions d))" "qID q \<noteq> 0"
    using fresh_id_gt [of _ "map qID (questions d)"] assms(4) by auto
  have keys: "keys_ok d'"
    using assms(1,5,6) f by (auto simp: inv_ex_def keys_ok_def)
  have one: "one_open_per_asker d'"
    using assms(1,2,3,5) by (auto simp: inv_ex_def one_open_per_asker_def none_open_def)
  have "\<forall>x\<in>set (questions d'). \<not> qIsClosed x \<longrightarrow> qUserID x = a \<or> in_discussion d' (qUserID x)"
    using assms(1,3,5,6) by (auto simp: inv_ex_def in_discussion_def)
  with keys one show ?thesis by (simp add: inv_ex_def)
qed

text \<open>Appending a user row under a fresh key.\<close>

lemma ask_inv_new_user:
  assumes "ask_inv d" and "uID u = fresh_id (map uID (users d))"
    and "users d' = users d @ [u]" and "questions d' = questions d"
  shows "inv_ex (uID u) d'" and "none_open (uID u) d'" and "uID u \<in> uID ` set (users d')"
proof -
  have f: "uID u \<notin> set (map uID (users d))" "uID u \<noteq> 0"
    using fresh_id_gt [of _ "map uID (users d)"] assms(2) by auto
  have keys: "keys_ok d'"
    using assms(1,3,4) f by (auto simp: ask_inv_def keys_ok_def)
  have one: "one_open_per_asker d'"
    using assms(1,4) by (simp add: ask_inv_def one_open_per_asker_def)
  have disc: "in_discussion d' k" if "in_discussion d k" for k
    using that assms(3) by (auto simp: in_discussion_def)
  have "\<forall>x\<in>set (questions d'). \<not> qIsClosed x \<longrightarrow> in_discussion d' (qUserID x)"
    using assms(1,4) disc by (auto simp: ask_inv_def)
  with keys one show "inv_ex (uID u) d'" by (simp add: inv_ex_def)
  show "none_open (uID u) d'"
    unfolding none_open_def
  proof (intro ballI impI, rule ccontr)
    fix x assume x: "x \<in> set (questions d')" "qUserID x = uID u" "\<not> qIsClosed x"
    with assms(1,4) have "in_discussion d (uID u)" by (auto simp: ask_inv_def)
    then obtain v where v: "v \<in> set (users d)" "uID v = uID u"
      by (auto simp: in_discussion_def)
    from v(1) have "uID v \<in> uID ` set (users d)" by (rule imageI)
    with v(2) f show False by simp
  qed
  show "uID u \<in> uID ` set (users d')" using assms(3) by simp
qed

subsection \<open>The building blocks, when nothing fails\<close>

lemma good_a: "good a app \<Longrightarrow> a \<noteq> 0"
  by (auto simp: good_def inv_ex_def keys_ok_def)

lemma good_nf: "good a app \<Longrightarrow> db_faults (DB app) = []"
  by (simp add: good_def no_faults_def)

lemma good_consume [simp]: "good a app \<Longrightarrow> app\<lparr>DB := consume (DB app)\<rparr> = app"
  by (simp add: consume_nf good_nf)

lemma good_carried: "good a app \<Longrightarrow> uID u = a \<Longrightarrow> carried_ok u (DB app)"
  by (simp add: good_def carried_ok_def)

lemma good_no_zero: "good a app \<Longrightarrow> 0 \<notin> uID ` set (users (DB app))"
  by (simp add: good_def inv_ex_def keys_ok_def)

lemma preload_user_cases:
  "preload_user k d = zero_user \<or> (uID (preload_user k d) = k \<and> preload_user k d \<in> set (users d))"
proof (cases "k = 0 \<or> first_by uID (\<lambda>u. uID u = k) (users d) = None")
  case True
  then show ?thesis by (auto simp: preload_user_def)
next
  case False
  then obtain u where u: "first_by uID (\<lambda>u. uID u = k) (users d) = Some u" "k \<noteq> 0" by auto
  from first_by_Some_set [OF u(1)] u show ?thesis by (simp add: preload_user_def)
qed

lemma preload_user_carried: "users d' = users d \<Longrightarrow> carried_ok (preload_user k d) d'"
  using preload_user_cases [of k d] by (auto simp: carried_ok_def)

lemma preload_user_key: "belongs_to k (preload_user k d) (preload_user k d) = k"
  using preload_user_cases [of k d] by (auto simp: belongs_to_def)

lemma good_same_DB:
  "good a app \<Longrightarrow> DB app' = DB app \<Longrightarrow> bot_faults (Bot app') = [] \<Longrightarrow> good a app'"
  by (simp add: good_def no_faults_def)

lemma Send_nf: "bot_faults tg = [] \<Longrightarrow> \<exists>tg'. Send c tg = (None, tg') \<and> bot_faults tg' = []"
  by (simp add: Send_def)

lemma send_good:
  assumes "good a app"
  shows "\<exists>app'. send c app = (None, app') \<and> good a app' \<and> DB app' = DB app"
proof -
  from assms have "bot_faults (Bot app) = []" by (simp add: good_def no_faults_def)
  from Send_nf [OF this, of c] obtain tg' where "Send c (Bot app) = (None, tg')"
    "bot_faults tg' = []" by blast
  then have "send c app = (None, app\<lparr>Bot := tg'\<rparr>)" "bot_faults (Bot (app\<lparr>Bot := tg'\<rparr>)) = []"
    by (simp_all add: send_def)
  with good_same_DB [OF assms, of "app\<lparr>Bot := tg'\<rparr>"] show ?thesis by simp
qed

lemma in_bot_good:
  assumes "good a app" and "\<And>tg. bot_faults tg = [] \<Longrightarrow> \<exists>tg'. f tg = (None, tg') \<and> bot_faults tg' = []"
  shows "\<exists>app'. in_bot f app = (None, app') \<and> good a app' \<and> DB app' = DB app"
proof -
  from assms(1) have "bot_faults (Bot app) = []" by (simp add: good_def no_faults_def)
  from assms(2) [OF this] obtain tg' where "f (Bot app) = (None, tg')" "bot_faults tg' = []"
    by blast
  then have "in_bot f app = (None, app\<lparr>Bot := tg'\<rparr>)" "bot_faults (Bot (app\<lparr>Bot := tg'\<rparr>)) = []"
    by (simp_all add: in_bot_def)
  with good_same_DB [OF assms(1), of "app\<lparr>Bot := tg'\<rparr>"] show ?thesis by simp
qed

lemma sendQuestions_nf:
  "bot_faults tg = [] \<Longrightarrow> \<exists>tg'. sendQuestions r tg qs = (None, tg') \<and> bot_faults tg' = []"
proof (induction qs arbitrary: tg)
  case Nil
  then show ?case by simp
next
  case (Cons q qs)
  from Send_nf [OF Cons.prems, of "offer r q"] obtain tg1 where
    s: "Send (offer r q) tg = (None, tg1)" "bot_faults tg1 = []" by blast
  with Cons.IH [OF s(2)] show ?case by simp
qed

lemma offer_each_nf: "bot_faults tg = [] \<Longrightarrow> bot_faults (offer_each rs qs tg) = []"
proof (induction rs arbitrary: tg)
  case Nil
  then show ?case by simp
next
  case (Cons r rs)
  from sendQuestions_nf [OF Cons.prems, of r qs] obtain tg1 where
    "sendQuestions r tg qs = (None, tg1)" "bot_faults tg1 = []" by blast
  with Cons.IH [of tg1] show ?case by simp
qed

lemma forward_each_nf:
  "bot_faults tg = [] \<Longrightarrow> \<exists>tg'. forward_each u cs tg = (None, tg') \<and> bot_faults tg' = []"
proof (induction cs arbitrary: tg)
  case Nil
  then show ?case by simp
next
  case (Cons c cs)
  from Send_nf [OF Cons.prems, of "forward_of u c"] obtain tg1 where
    s: "Send (forward_of u c) tg = (None, tg1)" "bot_faults tg1 = []" by blast
  with Cons.IH [OF s(2)] show ?case by simp
qed

lemma send_each_good: "good a app \<Longrightarrow> good a (send_each cs app) \<and> DB (send_each cs app) = DB app"
proof (induction cs arbitrary: app)
  case Nil
  then show ?case by simp
next
  case (Cons c cs)
  from send_good [OF Cons.prems, of c] obtain app1 where
    s: "send c app = (None, app1)" "good a app1" "DB app1 = DB app" by blast
  with Cons.IH [OF s(2)] show ?case by simp
qed

lemma save_user_good:
  assumes "good a app" and "uID u = a"
  shows "\<exists>app'. in_db (save_user u) app = (None, u, app') \<and> good a app' \<and>
           questions (DB app') = questions (DB app) \<and> u \<in> set (users (DB app'))"
proof -
  let ?d = "DB app"
  let ?d' = "(consume ?d)\<lparr>users := upsert uID u (users ?d)\<rparr>"
  from assms(1) have nf: "db_faults ?d = []" "bot_faults (Bot app) = []"
    and inv: "inv_ex a ?d" and ex: "a \<in> uID ` set (users ?d)"
    by (simp_all add: good_def no_faults_def)
  from ex obtain u0 where u0: "u0 \<in> set (users ?d)" "uID u0 = a" by auto
  from good_a [OF assms(1)] assms(2) have "uID u \<noteq> 0" by simp
  with nf have s: "in_db (save_user u) app = (None, u, app\<lparr>DB := ?d'\<rparr>)"
    by (simp add: in_db_def save_user_ok)
  have "users ?d' = upsert uID u (users ?d)" "questions ?d' = questions ?d"
    by (simp_all add: consume_def)
  from inv_ex_user [OF inv u0 assms(2) this]
  have "inv_ex a ?d'" "a \<in> uID ` set (users ?d')" "u \<in> set (users ?d')" .
  moreover have "db_faults ?d' = []" using nf by (simp add: consume_def)
  ultimately have "good a (app\<lparr>DB := ?d'\<rparr>)" "u \<in> set (users (DB (app\<lparr>DB := ?d'\<rparr>)))"
    "questions (DB (app\<lparr>DB := ?d'\<rparr>)) = questions (DB app)"
    using nf by (simp_all add: good_def no_faults_def consume_def)
  with s show ?thesis by blast
qed

lemma ChangeUserState_good:
  assumes "good a app" and "uID u = a"
  shows "\<exists>app'. in_db (ChangeUserState s u) app = (None, u\<lparr>uState := s\<rparr>, app') \<and> good a app' \<and>
           questions (DB app') = questions (DB app) \<and> u\<lparr>uState := s\<rparr> \<in> set (users (DB app'))"
  using save_user_good [OF assms(1), of "u\<lparr>uState := s\<rparr>"] assms(2)
  by (simp add: ChangeUserState_def in_db_def)

lemma ChangeUserIsReceiver_good:
  assumes "good a app" and "uID u = a"
  shows "\<exists>app'. in_db (ChangeUserIsReceiver b u) app = (None, u\<lparr>uIsReceiver := b\<rparr>, app') \<and>
           good a app' \<and> questions (DB app') = questions (DB app)"
  using save_user_good [OF assms(1), of "u\<lparr>uIsReceiver := b\<rparr>"] assms(2)
  by (auto simp: ChangeUserIsReceiver_def in_db_def)

lemma save_question_good:
  assumes "good a app" and "q0 \<in> set (questions (DB app))" and "qID q = qID q0"
    and "belongs_to (qUserID q) (qUser q) (qUser q) = qUserID q0"
    and "qIsClosed q0 \<longrightarrow> qIsClosed q"
    and "carried_ok (qUser q) (DB app)" and "carried_ok (qAnswerer q) (DB app)"
  shows "\<exists>q' app'. in_db (save_question q) app = (None, q', app') \<and> good a app' \<and>
           users (DB app') = users (DB app) \<and>
           questions (DB app') = upsert qID (question_row q') (questions (DB app)) \<and>
           qID q' = qID q \<and> qUserID q' = qUserID q0 \<and> qIsClosed q' = qIsClosed q \<and>
           qUser q' = qUser q \<and> qAnswerer q' = qAnswerer q \<and>
           (\<forall>b. none_open b (DB app) \<longrightarrow> none_open b (DB app'))"
proof -
  let ?d = "DB app"
  let ?q' = "q\<lparr>qUserID := belongs_to (qUserID q) (qUser q) (qUser q),
                qAnswererID := belongs_to (qAnswererID q) (qAnswerer q) (qAnswerer q)\<rparr>"
  let ?d' = "(consume ?d)\<lparr>questions := upsert qID (question_row ?q') (questions ?d)\<rparr>"
  from assms(1) have nf: "db_faults ?d = []" "bot_faults (Bot app) = []"
    and inv: "inv_ex a ?d" and ex: "a \<in> uID ` set (users ?d)"
    by (simp_all add: good_def no_faults_def)
  from inv assms(2) have "qID q0 \<noteq> 0" by (auto simp: inv_ex_def keys_ok_def)
  with assms(3) have z: "qID q \<noteq> 0" by simp
  from nf have nf': "\<not> fault (db_faults ?d)" by simp
  have s: "in_db (save_question q) app = (None, ?q', app\<lparr>DB := ?d'\<rparr>)"
    unfolding in_db_def save_question_ok [OF nf' z assms(6,7) good_no_zero [OF assms(1)]]
    by simp
  have r: "qID (question_row ?q') = qID q0" "qUserID (question_row ?q') = qUserID q0"
    "qIsClosed q0 \<longrightarrow> qIsClosed (question_row ?q')"
    using assms(3-5) by (simp_all add: question_row_def)
  have e: "questions ?d' = upsert qID (question_row ?q') (questions ?d)" "users ?d' = users ?d"
    by simp_all
  from inv_ex_question [OF inv assms(2) r e]
  have i: "inv_ex a ?d'" "\<And>b. none_open b ?d \<Longrightarrow> none_open b ?d'" by blast+
  have "db_faults ?d' = []" using nf by simp
  with i(1) ex nf have "good a (app\<lparr>DB := ?d'\<rparr>)"
    by (simp add: good_def no_faults_def)
  moreover have "qID ?q' = qID q" "qUserID ?q' = qUserID q0" "qIsClosed ?q' = qIsClosed q"
    "qUser ?q' = qUser q" "qAnswerer ?q' = qAnswerer q"
    using assms(4) by simp_all
  ultimately show ?thesis
    using s i(2) e by (intro exI [of _ ?q'] exI [of _ "app\<lparr>DB := ?d'\<rparr>"]) simp
qed

text \<open>A question that was read with its carried rows, changed in its own fields and saved.\<close>

lemma save_loaded_good:
  assumes "good a app" and "q0 \<in> set (questions (DB app))"
    and "qID q = qID q0" and "qUserID q = qUserID q0" and "qIsClosed q0 \<longrightarrow> qIsClosed q"
    and "qUser q = preload_user (qUserID q0) d" and "qAnswerer q = preload_user k d"
    and "users (DB app) = users d"
  shows "\<exists>q' app'. in_db (save_question q) app = (None, q', app') \<and> good a app' \<and>
           users (DB app') = users (DB app) \<and>
           questions (DB app') = upsert qID (question_row q') (questions (DB app)) \<and>
           qID q' = qID q \<and> qUserID q' = qUserID q0 \<and> qIsClosed q' = qIsClosed q \<and>
           qUser q' = qUser q \<and> qAnswerer q' = qAnswerer q \<and>
           (\<forall>b. none_open b (DB app) \<longrightarrow> none_open b (DB app'))"
proof (rule save_question_good [OF assms(1,2,3) _ assms(5)])
  show "belongs_to (qUserID q) (qUser q) (qUser q) = qUserID q0"
    using preload_user_key [of "qUserID q0" d] assms(4,6) by simp
  show "carried_ok (qUser q) (DB app)"
    using preload_user_carried [OF assms(8), of "qUserID q0"] assms(6) by simp
  show "carried_ok (qAnswerer q) (DB app)"
    using preload_user_carried [OF assms(8), of k] assms(7) by simp
qed

lemma inv_ex_cong:
  "users d' = users d \<Longrightarrow> questions d' = questions d \<Longrightarrow> inv_ex a d' = inv_ex a d"
  by (simp add: inv_ex_def keys_ok_def one_open_per_asker_def in_discussion_def)

lemma good_frame:
  assumes "good a app" and "users (DB app') = users (DB app)"
    and "questions (DB app') = questions (DB app)"
    and "db_faults (DB app') = []" and "bot_faults (Bot app') = []"
  shows "good a app'"
  using assms inv_ex_cong [OF assms(2,3), of a] by (simp add: good_def no_faults_def)

lemma save_corr_good:
  assumes "good a app" and "carried_ok (cUser c) (DB app)"
  shows "\<exists>c' app'. in_db (save_corr c) app = (None, c', app') \<and> good a app' \<and>
           users (DB app') = users (DB app) \<and> questions (DB app') = questions (DB app)"
proof -
  from assms(1) have nf: "db_faults (DB app) = []" "bot_faults (Bot app) = []"
    by (simp_all add: good_def no_faults_def)
  obtain e c' app' where s: "in_db (save_corr c) app = (e, c', app')"
    by (cases "in_db (save_corr c) app")
  with nf save_carried_ok [OF assms(2) good_no_zero [OF assms(1)]]
  have p: "e = None" "users (DB app') = users (DB app)"
    "questions (DB app') = questions (DB app)" "db_faults (DB app') = []" "Bot app' = Bot app"
    by (auto simp: in_db_def save_corr_def Let_def split: if_splits)
  with good_frame [OF assms(1), of app'] nf s show ?thesis by auto
qed

lemma AddCorrespondence_good:
  assumes "good a app" and "uID u = a"
  shows "\<exists>r app'. in_db (AddCorrespondence u mid) app = (None, r, app') \<and> good a app' \<and>
           users (DB app') = users (DB app) \<and> questions (DB app') = questions (DB app)"
proof -
  let ?g = "if uIsEmployee u then GetOpenQuestionByAnswerer u (DB app)
            else GetOpenQuestionByUser u (DB app)"
  have g: "?g = (fst ?g, DB app)"
    using consume_nf [OF good_nf [OF assms(1)]] by (simp add: prod_eq_iff)
  show ?thesis
  proof (cases "fst ?g")
    case None
    with g have "in_db (AddCorrespondence u mid) app = (None, None, app)"
      by (cases ?g) (auto simp: in_db_def AddCorrespondence_def)
    with assms show ?thesis by auto
  next
    case (Some q)
    let ?c = "\<lparr>cID = 0, cQuestionID = qID q, cMessageID = mid, cUserID = 0, cUser = u,
               cIsEmployee = False\<rparr>"
    have "carried_ok (cUser ?c) (DB app)" using good_carried [OF assms] by simp
    from save_corr_good [OF assms(1) this] obtain c' app' where
      s: "in_db (save_corr ?c) app = (None, c', app')" "good a app'"
      "users (DB app') = users (DB app)" "questions (DB app') = questions (DB app)" by blast
    from s(1) Some g have "in_db (AddCorrespondence u mid) app = (None, Some c', app')"
      by (cases ?g) (auto simp: in_db_def AddCorrespondence_def split: prod.splits)
    with s show ?thesis by auto
  qed
qed

lemma save_review_good:
  assumes "good a app" and "carried_ok (rUser r) (DB app)"
  shows "\<exists>r' app'. in_db (save_review r) app = (None, r', app') \<and> good a app' \<and>
           users (DB app') = users (DB app) \<and> questions (DB app') = questions (DB app)"
proof -
  from assms(1) have nf: "db_faults (DB app) = []" "bot_faults (Bot app) = []"
    by (simp_all add: good_def no_faults_def)
  obtain e r' app' where s: "in_db (save_review r) app = (e, r', app')"
    by (cases "in_db (save_review r) app")
  with nf save_carried_ok [OF assms(2) good_no_zero [OF assms(1)]]
  have p: "e = None" "users (DB app') = users (DB app)"
    "questions (DB app') = questions (DB app)" "db_faults (DB app') = []" "Bot app' = Bot app"
    by (auto simp: in_db_def save_review_def Let_def split: if_splits)
  with good_frame [OF assms(1), of app'] nf s show ?thesis by auto
qed

lemma parseReview_good:
  assumes "good a app" and "uID u = a"
  shows "\<exists>app'. parseReview t u app = (None, app') \<and> good a app' \<and>
           users (DB app') = users (DB app) \<and> questions (DB app') = questions (DB app)"
proof -
  let ?r = "\<lparr>rID = 0, rCreatedAt = 0, rRating = rating_of t, rText = [], rUserID = 0, rUser = u\<rparr>"
  have "carried_ok (rUser ?r) (DB app)" using good_carried [OF assms] by simp
  from save_review_good [OF assms(1) this] show ?thesis
    by (auto simp: parseReview_def)
qed

lemma GetEmptyReview_Some:
  assumes "fst (GetEmptyReview u d) = Some r"
  shows "carried_ok (rUser r) d"
proof -
  have nf: "\<not> fault (db_faults d)"
    using assms by (auto simp: GetEmptyReview_def First_def)
  with assms have "first_by rID (\<lambda>r. rUserID r = uID u \<and> rText r = [])
      (map (\<lambda>r. r\<lparr>rUser := preload_user (rUserID r) d\<rparr>) (reviews d)) = Some r"
    by (auto simp: GetEmptyReview_def First_ok split: option.splits if_splits)
  from first_by_Some_set [OF this] obtain r0 where "r = r0\<lparr>rUser := preload_user (rUserID r0) d\<rparr>"
    by auto
  with preload_user_carried [of d d "rUserID r0"] show ?thesis by simp
qed

lemma ChangeTextReviewByUser_good:
  assumes "good a app"
  shows "\<exists>app'. query (ChangeTextReviewByUser t u) app = (None, app') \<and> good a app' \<and>
           users (DB app') = users (DB app) \<and> questions (DB app') = questions (DB app)"
proof -
  have g: "GetEmptyReview u (DB app) = (fst (GetEmptyReview u (DB app)), DB app)"
    using consume_nf [OF good_nf [OF assms(1)]] by (simp add: prod_eq_iff)
  show ?thesis
  proof (cases "fst (GetEmptyReview u (DB app))")
    case None
    with g have "ChangeTextReviewByUser t u (DB app) = (None, DB app)"
      by (cases "GetEmptyReview u (DB app)") (auto simp: ChangeTextReviewByUser_def)
    then have "query (ChangeTextReviewByUser t u) app = (None, app)"
      by (simp add: query_def)
    with assms show ?thesis by simp
  next
    case (Some r)
    from GetEmptyReview_Some [OF Some] have "carried_ok (rUser (r\<lparr>rText := t\<rparr>)) (DB app)"
      by simp
    from save_review_good [OF assms this] obtain r' app' where
      s: "in_db (save_review (r\<lparr>rText := t\<rparr>)) app = (None, r', app')" "good a app'"
      "users (DB app') = users (DB app)" "questions (DB app') = questions (DB app)" by blast
    from s(1) obtain d' where d: "save_review (r\<lparr>rText := t\<rparr>) (DB app) = (None, r', d')"
      "app' = app\<lparr>DB := d'\<rparr>"
      by (auto simp: in_db_def split: prod.splits)
    with Some g have "ChangeTextReviewByUser t u (DB app) = (None, d')"
      by (cases "GetEmptyReview u (DB app)") (auto simp: ChangeTextReviewByUser_def)
    then have "query (ChangeTextReviewByUser t u) app = (None, app')"
      using d(2) by (simp add: query_def)
    with s show ?thesis by auto
  qed
qed

lemma responserUser_good:
  assumes "good a app"
  shows "\<exists>app'. responserUser u app = (None, app') \<and> good a app' \<and> DB app' = DB app"
proof -
  have "responserUser u app = (None, app) \<or> (\<exists>c. responserUser u app = send c app)"
    using assms by (auto simp: responserUser_def query_Get split: option.splits)
  then show ?thesis
  proof
    assume "responserUser u app = (None, app)"
    with assms show ?thesis by simp
  next
    assume "\<exists>c. responserUser u app = send c app"
    then obtain c where "responserUser u app = send c app" by blast
    with send_good [OF assms, of c] show ?thesis by simp
  qed
qed

lemma responserEmployee_good:
  assumes "good a app" and "uID u = a"
  shows "\<exists>u' app'. responserEmployee u app = (None, u', app') \<and> good a app' \<and>
           questions (DB app') = questions (DB app)"
proof -
  consider (switch) "uState u = SSwitchReceiver"
    | (question) "uState u = SQuestion"
    | (plain) "uState u \<noteq> SSwitchReceiver" "uState u \<noteq> SQuestion"
    by blast
  then show ?thesis
  proof cases
    case switch
    then have st: "uState u \<noteq> SMain" "uState u \<noteq> SReview" "uState u \<noteq> SQuestion"
      "uState u \<noteq> SQuestionDiscussion"
      by (simp_all add: consts_defs)
    from ChangeUserState_good [OF assms, of SMain] obtain app1 where
      c: "in_db (ChangeUserState SMain u) app = (None, u\<lparr>uState := SMain\<rparr>, app1)"
      "good a app1" "questions (DB app1) = questions (DB app)" by blast
    let ?u1 = "u\<lparr>uState := SMain\<rparr>"
    have u1: "uID ?u1 = a" using assms(2) by simp
    from ChangeUserIsReceiver_good [OF c(2) u1, of "\<not> uIsReceiver u"] obtain app2 where
      r: "in_db (ChangeUserIsReceiver (\<not> uIsReceiver u) ?u1) app1 =
            (None, ?u1\<lparr>uIsReceiver := \<not> uIsReceiver u\<rparr>, app2)"
      "good a app2" "questions (DB app2) = questions (DB app1)" by blast
    show ?thesis
    proof (cases "uIsReceiver u")
      case True
      from send_good [OF r(2), of "NewMessage (uChatID u) ''You no longer receive questions''
          (newReplyKeyboardMarkup (buttons EmplMain))"]
      obtain app3 where s: "send (NewMessage (uChatID u) ''You no longer receive questions''
          (newReplyKeyboardMarkup (buttons EmplMain))) app2 = (None, app3)"
        "good a app3" "DB app3 = DB app2" by blast
      have "responserEmployee u app = (None, ?u1\<lparr>uIsReceiver := False\<rparr>, app3)"
        using switch st c(1) r(1) s(1) True by (simp add: responserEmployee_def)
      with s c r show ?thesis by simp
    next
      case False
      from send_good [OF r(2), of "NewMessage (uChatID u) ''Now You receive questions''
          (newReplyKeyboardMarkup (buttons EmplMainR))"]
      obtain app3 where s: "send (NewMessage (uChatID u) ''Now You receive questions''
          (newReplyKeyboardMarkup (buttons EmplMainR))) app2 = (None, app3)"
        "good a app3" "DB app3 = DB app2" by blast
      have "responserEmployee u app = (None, ?u1\<lparr>uIsReceiver := True\<rparr>, app3)"
        using switch st c(1) r(1) s(1) False by (simp add: responserEmployee_def)
      with s c r show ?thesis by simp
    qed
  next
    case question
    then have st: "uState u \<noteq> SMain" "uState u \<noteq> SReview" by (simp_all add: consts_defs)
    from send_good [OF assms(1), of "NewMessage (uChatID u) ''No questions'' NoMarkup"]
    obtain app1 where s: "send (NewMessage (uChatID u) ''No questions'' NoMarkup) app = (None, app1)"
      "good a app1" "DB app1 = DB app" by blast
    from ChangeUserState_good [OF s(2) assms(2), of SMain] obtain app2 where
      c: "in_db (ChangeUserState SMain u) app1 = (None, u\<lparr>uState := SMain\<rparr>, app2)"
      "good a app2" "questions (DB app2) = questions (DB app1)" by blast
    have "responserEmployee u app = (None, u\<lparr>uState := SMain\<rparr>, app2)"
      using question st s(1) c(1) by (simp add: responserEmployee_def)
    with c s show ?thesis by simp
  next
    case plain
    then have "responserEmployee u app = (None, u, app) \<or>
        (\<exists>c. responserEmployee u app = (fst (send c app), u, snd (send c app)))"
      unfolding responserEmployee_def case_prod_beta by (simp del: ex_simps) blast
    then show ?thesis
    proof
      assume "responserEmployee u app = (None, u, app)"
      with assms show ?thesis by simp
    next
      assume "\<exists>c. responserEmployee u app = (fst (send c app), u, snd (send c app))"
      then obtain c where r: "responserEmployee u app = (fst (send c app), u, snd (send c app))"
        by blast
      from send_good [OF assms(1), of c] obtain app1 where
        "send c app = (None, app1)" "good a app1" "DB app1 = DB app" by blast
      with r show ?thesis by simp
    qed
  qed
qed

lemma responser_good:
  assumes "good a app" and "uID u = a"
  shows "\<exists>u' app'. responser u app = (None, u', app') \<and> good a app' \<and>
           questions (DB app') = questions (DB app) \<and>
           (\<not> uIsEmployee u \<longrightarrow> DB app' = DB app)"
proof (cases "uIsEmployee u")
  case True
  with responserEmployee_good [OF assms] show ?thesis by (simp add: responser_def)
next
  case False
  from responserUser_good [OF assms(1), of u] obtain app' where
    "responserUser u app = (None, app')" "good a app'" "DB app' = DB app" by blast
  with False show ?thesis by (simp add: responser_def)
qed

lemma goto_good:
  assumes "good a app" and "uID u = a"
  shows "\<exists>app'. goto s b u app = (None, app') \<and> good a app' \<and>
           questions (DB app') = questions (DB app) \<and>
           (\<not> uIsEmployee u \<longrightarrow> u\<lparr>uState := s\<rparr> \<in> set (users (DB app')))"
proof -
  let ?u1 = "u\<lparr>uState := s\<rparr>"
  from ChangeUserState_good [OF assms, of s] obtain app1 where
    c: "in_db (ChangeUserState s u) app = (None, ?u1, app1)" "good a app1"
    "questions (DB app1) = questions (DB app)" "?u1 \<in> set (users (DB app1))" by blast
  have "uID ?u1 = a" using assms(2) by simp
  from responser_good [OF c(2) this] obtain u' app2 where
    r: "responser ?u1 app1 = (None, u', app2)" "good a app2"
    "questions (DB app2) = questions (DB app1)" "\<not> uIsEmployee ?u1 \<longrightarrow> DB app2 = DB app1"
    by blast
  have "goto s b u app = (None, app2)"
    using c(1) r(1) by (simp add: goto_def rollback_def)
  with c r show ?thesis by auto
qed

subsection \<open>Handlers that open no question\<close>

lemma keeps_refl: "good a app \<Longrightarrow> keeps a app app"
  by (simp add: keeps_def)

lemma keeps_trans: "keeps a app app1 \<Longrightarrow> keeps a app1 app2 \<Longrightarrow> keeps a app app2"
  by (simp add: keeps_def)

lemma keeps_good: "keeps a app app' \<Longrightarrow> good a app'"
  by (simp add: keeps_def)

lemma keepsI: "good a app' \<Longrightarrow> questions (DB app') = questions (DB app) \<Longrightarrow> keeps a app app'"
  by (simp add: keeps_def none_open_def)

lemma keeps_done:
  assumes "keeps a app app'" and "none_open a (DB app)"
  shows "no_faults app' \<and> ask_inv (DB app')"
  using assms inv_ex_none_open [of a "DB app'"] by (simp add: keeps_def good_def)

lemma send_keeps: "good a app \<Longrightarrow> \<exists>app'. send c app = (None, app') \<and> keeps a app app'"
  using send_good [of a app c] by (auto simp: keeps_def)

lemma snd_send_keeps: "good a app \<Longrightarrow> keeps a app (snd (send c app))"
  using send_keeps [of a app c] by auto

lemma in_bot_keeps:
  assumes "good a app"
    and "\<And>tg. bot_faults tg = [] \<Longrightarrow> \<exists>tg'. f tg = (None, tg') \<and> bot_faults tg' = []"
  shows "\<exists>app'. in_bot f app = (None, app') \<and> keeps a app app'"
proof -
  from in_bot_good [OF assms(1), of f] assms(2) obtain app' where
    "in_bot f app = (None, app')" "good a app'" "DB app' = DB app" by blast
  then show ?thesis by (auto simp: keeps_def)
qed

lemma goto_keeps:
  "good a app \<Longrightarrow> uID u = a \<Longrightarrow> \<exists>app'. goto s b u app = (None, app') \<and> keeps a app app'"
  using goto_good [of a app u s b] by (auto intro: keepsI)

lemma ChangeUserState_keeps:
  "good a app \<Longrightarrow> uID u = a \<Longrightarrow>
     \<exists>app'. in_db (ChangeUserState s u) app = (None, u\<lparr>uState := s\<rparr>, app') \<and> keeps a app app'"
  using ChangeUserState_good [of a app u s] by (auto intro: keepsI)

lemma responser_keeps:
  "good a app \<Longrightarrow> uID u = a \<Longrightarrow>
     \<exists>u' app'. responser u app = (None, u', app') \<and> keeps a app app'"
  using responser_good [of a app u] by (auto intro: keepsI)

lemma AddCorrespondence_keeps:
  "good a app \<Longrightarrow> uID u = a \<Longrightarrow>
     \<exists>r app'. in_db (AddCorrespondence u mid) app = (None, r, app') \<and> keeps a app app'"
  using AddCorrespondence_good [of a app u mid] by (auto intro: keepsI)

lemma no_faults_consume [simp]: "no_faults app \<Longrightarrow> app\<lparr>DB := consume (DB app)\<rparr> = app"
  by (simp add: consume_nf no_faults_def)

lemma count_ratings_nf: "db_faults d = [] \<Longrightarrow> snd (count_ratings is d) = d"
proof (induction "is" arbitrary: d)
  case Nil
  then show ?case by simp
next
  case (Cons i "is")
  from Cons.IH [OF Cons.prems] show ?case
    by (cases "count_ratings is d") (simp add: Count_def consume_nf Cons.prems)
qed

lemma query_counts_good:
  "good a app \<Longrightarrow> query GetCountReviewsByRating app = (fst (GetCountReviewsByRating (DB app)), app)"
  using count_ratings_nf [OF good_nf, of a app "[0, 1, 2, 3, 4]"]
  by (simp add: query_snd GetCountReviewsByRating_def)

lemma load_question_fields [simp]:
  "qID (load_question q d) = qID q" "qUserID (load_question q d) = qUserID q"
  "qIsClosed (load_question q d) = qIsClosed q" "qAnswererID (load_question q d) = qAnswererID q"
  "qHaveAnswer (load_question q d) = qHaveAnswer q"
  by (simp_all add: load_question_def)

lemma save_loaded_keeps:
  assumes "good a app" and "q0 \<in> set (questions (DB app))"
    and "qID q = qID q0" and "qUserID q = qUserID q0" and "qIsClosed q0 \<longrightarrow> qIsClosed q"
    and "qUser q = preload_user (qUserID q0) d" and "qAnswerer q = preload_user k d"
    and "users (DB app) = users d"
  shows "\<exists>q' app'. in_db (save_question q) app = (None, q', app') \<and> keeps a app app'"
  using save_loaded_good [OF assms] by (auto simp: keeps_def)

lemma load_question_carried [simp]:
  "qUser (load_question q d) = preload_user (qUserID q) d"
  "qAnswerer (load_question q d) = preload_user (qAnswererID q) d"
  by (simp_all add: load_question_def)

lemma ChangeQuestion_fun:
  "ChangeQuestionAnswerer x q = save_question (q\<lparr>qAnswererID := x\<rparr>)"
  "ChangeQuestionHaveAnswer b q = save_question (q\<lparr>qHaveAnswer := b\<rparr>)"
  "ChangeQuestionIsClosed b q = save_question (q\<lparr>qIsClosed := b\<rparr>)"
  by (rule ext, simp add: ChangeQuestionAnswerer_def ChangeQuestionHaveAnswer_def
        ChangeQuestionIsClosed_def)+

lemma GetOpenQuestionByUser_Some:
  assumes "fst (GetOpenQuestionByUser u d) = Some q"
  shows "\<exists>q0\<in>set (questions d). q = load_question q0 d \<and> qUserID q0 = uID u \<and> \<not> qIsClosed q0"
proof -
  have nf: "\<not> fault (db_faults d)"
    using assms by (auto simp: GetOpenQuestionByUser_def First_def)
  with assms have "first_by qID (\<lambda>q. qUserID q = uID u \<and> \<not> qIsClosed q)
      (map (\<lambda>q. load_question q d) (questions d)) = Some q"
    by (auto simp: GetOpenQuestionByUser_def First_ok split: option.splits if_splits)
  from first_by_Some_set [OF this] show ?thesis by auto
qed

lemma GetOpenQuestionByAnswerer_Some:
  assumes "fst (GetOpenQuestionByAnswerer u d) = Some q"
  shows "\<exists>q0\<in>set (questions d). q = load_question q0 d \<and> qAnswererID q0 = uID u \<and>
           \<not> qIsClosed q0"
proof -
  have nf: "\<not> fault (db_faults d)"
    using assms by (auto simp: GetOpenQuestionByAnswerer_def First_def)
  with assms have "first_by qID (\<lambda>q. qAnswererID q = uID u \<and> \<not> qIsClosed q)
      (map (\<lambda>q. load_question q d) (questions d)) = Some q"
    by (auto simp: GetOpenQuestionByAnswerer_def First_ok split: option.splits if_splits)
  from first_by_Some_set [OF this] show ?thesis by auto
qed

lemma GetOpenQuestionByUser_None:
  assumes "keys_ok d" and "\<not> fault (db_faults d)" and "fst (GetOpenQuestionByUser u d) = None"
  shows "none_open (uID u) d"
proof -
  let ?rows = "map (\<lambda>q. load_question q d) (questions d)"
  have "first_by qID (\<lambda>q. qUserID q = uID u \<and> \<not> qIsClosed q) ?rows = None"
  proof (rule ccontr)
    assume "first_by qID (\<lambda>q. qUserID q = uID u \<and> \<not> qIsClosed q) ?rows \<noteq> None"
    then obtain q where q: "first_by qID (\<lambda>q. qUserID q = uID u \<and> \<not> qIsClosed q) ?rows = Some q"
      by auto
    from first_by_Some_set [OF q] assms(1) have "qID q \<noteq> 0"
      by (auto simp: keys_ok_def)
    with q assms(2,3) show False by (simp add: GetOpenQuestionByUser_def First_ok)
  qed
  then show ?thesis by (auto simp: first_by_None none_open_def)
qed

lemma parseMessageEmployee_keeps:
  assumes "good a app" and "uID u = a"
  shows "\<exists>e app'. parseMessageEmployee u m app = (e, app') \<and> keeps a app app'"
proof -
  note k0 = keeps_refl [OF assms(1)]
  consider (new) "uState u = SNew"
    | (main) "uState u \<noteq> SNew" "uState u = SMain"
    | (review) "uState u \<noteq> SNew" "uState u \<noteq> SMain" "uState u = SReview"
    | (disc) "uState u \<noteq> SNew" "uState u \<noteq> SMain" "uState u \<noteq> SReview"
        "uState u = SQuestionDiscussion"
    | (search) "uState u \<noteq> SNew" "uState u \<noteq> SMain" "uState u \<noteq> SReview"
        "uState u \<noteq> SQuestionDiscussion" "uState u = SSearchQuestion"
    | (other) "uState u \<noteq> SNew" "uState u \<noteq> SMain" "uState u \<noteq> SReview"
        "uState u \<noteq> SQuestionDiscussion" "uState u \<noteq> SSearchQuestion"
    by blast
  then show ?thesis
  proof cases
    case new
    with ChangeUserState_keeps [OF assms, of SMain] show ?thesis
      by (auto simp: parseMessageEmployee_def)
  next
    case main
    have sw: "\<exists>e app'. (case in_db (ChangeUserState s u) app of
           (Some e, _, app1) \<Rightarrow> (Some e, app1)
         | (None, user1, app1) \<Rightarrow> (case responser user1 app1 of (err, _, app2) \<Rightarrow> (err, app2)))
         = (e, app') \<and> keeps a app app'" for s
    proof -
      from ChangeUserState_keeps [OF assms, of s] obtain app1 where
        c: "in_db (ChangeUserState s u) app = (None, u\<lparr>uState := s\<rparr>, app1)" "keeps a app app1"
        by blast
      have "uID (u\<lparr>uState := s\<rparr>) = a" using assms(2) by simp
      from responser_keeps [OF keeps_good [OF c(2)] this] obtain u' app2 where
        r: "responser (u\<lparr>uState := s\<rparr>) app1 = (None, u', app2)" "keeps a app1 app2" by blast
      from c r keeps_trans [OF c(2) r(2)] show ?thesis by simp
    qed
    have op: "\<exists>app'. snd (in_bot (\<lambda>tg. sendQuestions u tg qs) app) = app' \<and> keeps a app app'" for qs
      using in_bot_keeps [OF assms(1), of "\<lambda>tg. sendQuestions u tg qs"] sendQuestions_nf
      by fastforce
    show ?thesis
      using main sw [of SSwitchReceiver] sw [of SQuestion] op k0 assms(1)
        goto_keeps [OF assms, of SReview SMain] goto_keeps [OF assms, of SSearchQuestion SMain]
      by (auto simp: parseMessageEmployee_def parseMessageEmployee_Main_def query_Get)
  next
    case review
    have lr: "keeps a app (loadReviews i u app)" for i
      using assms(1) snd_send_keeps [OF assms(1)] send_each_good [OF assms(1)]
      by (auto simp: loadReviews_def Let_def query_Get query_counts_good intro: keepsI)
    show ?thesis
      using review lr k0 goto_keeps [OF assms, of SMain SQuestionDiscussion]
      by (auto simp: parseMessageEmployee_def parseMessageEmployee_Review_def)
  next
    case disc
    show ?thesis
    proof (cases "mText m = btn_Back")
      case True
      from ChangeUserState_keeps [OF assms, of SMain] obtain app1 where
        c: "in_db (ChangeUserState SMain u) app = (None, u\<lparr>uState := SMain\<rparr>, app1)"
        "keeps a app app1" by blast
      let ?u1 = "u\<lparr>uState := SMain\<rparr>"
      note g1 = keeps_good [OF c(2)]
      have u1: "uID ?u1 = a" using assms(2) by simp
      have "\<exists>app2. keeps a app1 app2 \<and>
              parseMessageEmployee_Discussion u m app =
                rollback SQuestionDiscussion (responser ?u1 app2)"
      proof (cases "fst (GetOpenQuestionByAnswerer ?u1 (DB app1))")
        case None
        with True c g1 keeps_refl [OF g1] show ?thesis
          by (auto simp: parseMessageEmployee_Discussion_def query_Get)
      next
        case (Some q)
        from GetOpenQuestionByAnswerer_Some [OF Some] obtain q0 where
          q0: "q0 \<in> set (questions (DB app1))" "q = load_question q0 (DB app1)" by blast
        from save_loaded_keeps [OF g1 q0(1), of "q\<lparr>qAnswererID := 0\<rparr>" "DB app1" "qAnswererID q0"]
          q0(2)
        obtain q' app2 where "in_db (save_question (q\<lparr>qAnswererID := 0\<rparr>)) app1 =
            (None, q', app2)" "keeps a app1 app2"
          by auto
        with True c Some g1 show ?thesis
          by (auto simp: parseMessageEmployee_Discussion_def ChangeQuestion_fun query_Get)
      qed
      then obtain app2 where k2: "keeps a app1 app2"
        and p: "parseMessageEmployee_Discussion u m app =
                  rollback SQuestionDiscussion (responser ?u1 app2)" by blast
      from responser_keeps [OF keeps_good [OF k2] u1] obtain u' app3 where
        "responser ?u1 app2 = (None, u', app3)" "keeps a app2 app3" by blast
      with p keeps_trans [OF keeps_trans [OF c(2) k2]] disc show ?thesis
        by (auto simp: parseMessageEmployee_def rollback_def)
    next
      case False
      show ?thesis
      proof (cases "fst (GetOpenQuestionByAnswerer u (DB app))")
        case None
        with False disc k0 assms(1) show ?thesis
          by (auto simp: parseMessageEmployee_def parseMessageEmployee_Discussion_def query_Get)
      next
        case (Some q)
        from GetOpenQuestionByAnswerer_Some [OF Some] obtain q0 where
          q0: "q0 \<in> set (questions (DB app))" "q = load_question q0 (DB app)" by blast
        from in_bot_good [OF assms(1), of "sendCorrespondenceFromAnswerer q m"] Send_nf
        obtain app1 where s: "in_bot (sendCorrespondenceFromAnswerer q m) app = (None, app1)"
          "good a app1" "DB app1 = DB app"
          by (auto simp: sendCorrespondenceFromAnswerer_def)
        from s(2,3) have k1: "keeps a app app1" by (simp add: keepsI)
        from q0(1) s(3) have q1: "q0 \<in> set (questions (DB app1))" by simp
        from save_loaded_keeps [OF s(2) q1, of "q\<lparr>qHaveAnswer := True\<rparr>" "DB app" "qAnswererID q0"]
          q0(2) s(3)
        obtain q' app2 where h: "in_db (save_question (q\<lparr>qHaveAnswer := True\<rparr>)) app1 =
            (None, q', app2)" "keeps a app1 app2"
          by auto
        from AddCorrespondence_keeps [OF keeps_good [OF h(2)] assms(2), of "mMessageID m"]
        obtain r app3 where ac: "in_db (AddCorrespondence u (mMessageID m)) app2 = (None, r, app3)"
          "keeps a app2 app3" by blast
        from keeps_trans [OF keeps_trans [OF k1 h(2)] ac(2)] have "keeps a app app3" .
        with False disc Some s(1) h(1) ac(1) assms(1) show ?thesis
          by (auto simp: parseMessageEmployee_def parseMessageEmployee_Discussion_def
                ChangeQuestion_fun query_Get)
      qed
    qed
  next
    case search
    have lf: "keeps a app (loadFullQuestionById t u app)" for t
    proof -
      have h: "keeps a app (snd (in_bot (forward_each u cs) (snd (send c app))))" for c cs
      proof -
        from send_keeps [OF assms(1), of c] obtain app1 where
          s: "send c app = (None, app1)" "keeps a app app1" by blast
        from in_bot_keeps [OF keeps_good [OF s(2)], of "forward_each u cs"] forward_each_nf
        obtain app2 where "in_bot (forward_each u cs) app1 = (None, app2)" "keeps a app1 app2"
          by blast
        with s keeps_trans [OF s(2)] show ?thesis by simp
      qed
      have g: "good a (snd (send c app))" for c
        using snd_send_keeps [OF assms(1), of c] by (rule keeps_good)
      have h': "keeps a app (snd (in_bot (forward_each u cs)
          ((snd (send c app))\<lparr>DB := consume (DB (snd (send c app)))\<rparr>)))" for c cs
        using h [of cs c] by (simp only: good_consume [OF g])
      show ?thesis
        using snd_send_keeps [OF assms(1)] h' assms(1)
        by (auto simp: loadFullQuestionById_def Let_def query_Get split: sum.splits option.splits)
    qed
    show ?thesis
      using search lf goto_keeps [OF assms, of SMain SSearchQuestion]
      by (auto simp: parseMessageEmployee_def parseMessageEmployee_Search_def)
  next
    case other
    with k0 show ?thesis by (simp add: parseMessageEmployee_def)
  qed
qed

lemma parseCallbackEmployee_keeps:
  assumes "good a app" and "uID u = a"
  shows "\<exists>e app'. parseCallbackEmployee u cb app = (e, app') \<and> keeps a app app'"
proof -
  note k0 = keeps_refl [OF assms(1)]
  obtain key data where sp: "splitCallbackData cb = (key, data)"
    by (cases "splitCallbackData cb")
  show ?thesis
  proof (cases "uState u = SMain \<and> key = CBQuestion")
    case False
    with sp k0 show ?thesis by (auto simp: parseCallbackEmployee_def split: sum.splits)
  next
    case True
    show ?thesis
    proof (cases "Atoi data")
      case (Inl x)
      with True sp k0 show ?thesis by (simp add: parseCallbackEmployee_def)
    next
      case (Inr ident)
      have "\<exists>app1. loadCorrespondence ident u app = (None, app1) \<and> keeps a app app1"
      proof (cases "fst (GetNewQuestionById ident (DB app))")
        case None
        with send_keeps [OF assms(1)] assms(1) show ?thesis
          by (simp add: loadCorrespondence_def query_Get)
      next
        case (Some q)
        from GetNewQuestionById_Some [OF Some] obtain q0 where
          q: "q0 \<in> set (questions (DB app))" "q = question_row q0" by blast
        have z: "carried_ok zero_user (DB app)" by (simp add: carried_ok_def)
        from save_question_good [OF assms(1) q(1), of "q\<lparr>qAnswererID := uID u\<rparr>"] q(2) z
        obtain q' app1 where s: "in_db (save_question (q\<lparr>qAnswererID := uID u\<rparr>)) app =
            (None, q', app1)" "good a app1"
          "\<forall>b. none_open b (DB app) \<longrightarrow> none_open b (DB app1)"
          by (auto simp: question_row_def)
        from s(2,3) have k1: "keeps a app app1" by (simp add: keeps_def)
        from in_bot_keeps [OF s(2),
            of "forward_each u (fst (GetCorrespondenceByQuestion q' (DB app1)))"]
          forward_each_nf
        obtain app2 where "in_bot (forward_each u
            (fst (GetCorrespondenceByQuestion q' (DB app1)))) app1 = (None, app2)"
          "keeps a app1 app2" by blast
        with Some s(1,2) keeps_trans [OF k1] assms(1) show ?thesis
          by (simp add: loadCorrespondence_def ChangeQuestion_fun query_Get)
      qed
      then obtain app1 where l: "loadCorrespondence ident u app = (None, app1)"
        "keeps a app app1" by blast
      from goto_keeps [OF keeps_good [OF l(2)] assms(2), of SQuestionDiscussion SMain]
      obtain app2 where "goto SQuestionDiscussion SMain u app1 = (None, app2)"
        "keeps a app1 app2" by blast
      with True sp Inr l keeps_trans [OF l(2)] show ?thesis
        by (simp add: parseCallbackEmployee_def)
    qed
  qed
qed

lemma ask_inv_good: "ask_inv (DB app) \<Longrightarrow> no_faults app \<Longrightarrow> u \<in> set (users (DB app)) \<Longrightarrow>
    good (uID u) app"
  by (simp add: good_def ask_inv_ex)

lemma good_in_discussion:
  assumes "good a app" and "u \<in> set (users (DB app))" and "uID u = a"
    and "uState u = SQuestionDiscussion" and "\<not> uIsEmployee u"
  shows "no_faults app \<and> ask_inv (DB app)"
proof -
  from assms(2-5) have "in_discussion (DB app) a" by (auto simp: in_discussion_def)
  with assms(1) inv_ex_in_discussion [of a "DB app"] show ?thesis by (simp add: good_def)
qed

lemma AddQuestion_good:
  assumes "good a app" and "none_open a (DB app)" and "uID u = a"
  shows "\<exists>q app'. in_db (AddQuestion t u) app = (None, q, app') \<and> good a app' \<and>
           Bot app' = Bot app"
proof -
  let ?d = "DB app"
  from assms(1) have nf: "db_faults ?d = []" "bot_faults (Bot app) = []"
    and inv: "inv_ex a ?d" and ex: "a \<in> uID ` set (users ?d)"
    by (simp_all add: good_def no_faults_def)
  from nf have "\<not> fault (db_faults ?d)" by simp
  from AddQuestion_ok [OF this, of t u] obtain q where
    a: "AddQuestion t u ?d = (None, q, (consume ?d)\<lparr>questions := questions ?d @ [q]\<rparr>)"
    and q: "q = zero_question\<lparr>qID := fresh_id (map qID (questions ?d)), qUserID := uID u,
                               qHeader := t\<rparr>"
    by blast
  let ?d' = "(consume ?d)\<lparr>questions := questions ?d @ [q]\<rparr>"
  have "qUserID q = a" "qID q = fresh_id (map qID (questions ?d))"
    using q assms(3) by (simp_all add: zero_question_def)
  moreover have "questions ?d' = questions ?d @ [q]" "users ?d' = users ?d"
    by (simp_all add: consume_def)
  ultimately have "inv_ex a ?d'" by (rule inv_ex_new_question [OF inv assms(2)])
  with nf ex have "good a (app\<lparr>DB := ?d'\<rparr>)"
    by (simp add: good_def no_faults_def consume_def)
  with a show ?thesis by (auto simp: in_db_def)
qed

lemma close_good:
  assumes "good a app" and "q0 \<in> set (questions (DB app))" and "q = load_question q0 d"
    and "users (DB app) = users d" and "qUserID q0 = a" and "\<not> qIsClosed q0"
  shows "\<exists>q' app'. in_db (ChangeQuestionIsClosed True q) app = (None, q', app') \<and>
           good a app' \<and> none_open a (DB app') \<and> qAnswerer q' = qAnswerer q"
proof -
  from save_loaded_good [OF assms(1,2), of "q\<lparr>qIsClosed := True\<rparr>" d "qAnswererID q0"] assms(3,4)
  obtain q' app' where s: "in_db (save_question (q\<lparr>qIsClosed := True\<rparr>)) app = (None, q', app')"
    "good a app'"
    "questions (DB app') = upsert qID (question_row q') (questions (DB app))"
    "qID q' = qID q" "qIsClosed q'" "qAnswerer q' = qAnswerer q"
    by auto
  from assms(1) have inv: "inv_ex a (DB app)" by (simp add: good_def)
  have "none_open a (DB app')"
    by (rule close_none_open [OF inv assms(2,5,6) _ _ s(3)])
      (simp_all add: question_row_def s(4,5) assms(3))
  with s show ?thesis by (auto simp: ChangeQuestion_fun)
qed

subsection \<open>The handlers of a customer\<close>

lemma parseMessageUser_Question_safe:
  assumes "good a app" and "none_open a (DB app)" and "uID u = a" and "\<not> uIsEmployee u"
  shows "no_faults (snd (parseMessageUser_Question u m app)) \<and>
         ask_inv (DB (snd (parseMessageUser_Question u m app)))"
proof (cases "mText m = btn_Close")
  case True
  from goto_keeps [OF assms(1,3), of SMain SQuestion] obtain app' where
    "goto SMain SQuestion u app = (None, app')" "keeps a app app'" by blast
  with True keeps_done [OF _ assms(2)] show ?thesis
    by (simp add: parseMessageUser_Question_def)
next
  case False
  from AddQuestion_good [OF assms(1-3), of "mText m"] obtain q app1 where
    a: "in_db (AddQuestion (mText m) u) app = (None, q, app1)" "good a app1" "Bot app1 = Bot app"
    by blast
  let ?app2 = "app1\<lparr>Bot := offer_each (fst (GetReceivers (DB app1))) [q] (Bot app1)\<rparr>"
  from a(2) have "bot_faults (Bot app1) = []" by (simp add: good_def no_faults_def)
  from offer_each_nf [OF this] have "bot_faults (Bot ?app2) = []" by simp
  with good_same_DB [OF a(2), of ?app2] have g2: "good a ?app2" by simp
  from goto_good [OF g2 assms(3), of SQuestionDiscussion SQuestion] assms(4) obtain app' where
    g: "goto SQuestionDiscussion SQuestion u ?app2 = (None, app')" "good a app'"
    "u\<lparr>uState := SQuestionDiscussion\<rparr> \<in> set (users (DB app'))" by blast
  from good_in_discussion [OF g(2,3)] assms(3,4) have "no_faults app' \<and> ask_inv (DB app')"
    by simp
  with False a(1,2) g(1) show ?thesis
    by (simp add: parseMessageUser_Question_def query_Get)
qed

lemma parseMessageUser_Discussion_safe:
  assumes "ask_inv (DB app)" and "no_faults app" and "u \<in> set (users (DB app))"
    and "uState u = SQuestionDiscussion" and "\<not> uIsEmployee u"
  shows "no_faults (snd (parseMessageUser_Discussion u m app)) \<and>
         ask_inv (DB (snd (parseMessageUser_Discussion u m app)))"
proof -
  let ?a = "uID u"
  note g0 = ask_inv_good [OF assms(1-3)]
  show ?thesis
  proof (cases "mText m = btn_Close")
    case True
    let ?u1 = "u\<lparr>uState := SMain\<rparr>"
    from ChangeUserState_good [OF g0 refl, of SMain] obtain app1 where
      c: "in_db (ChangeUserState SMain u) app = (None, ?u1, app1)" "good ?a app1" by blast
    have "\<exists>app3. good ?a app3 \<and> none_open ?a (DB app3) \<and>
            parseMessageUser_Discussion u m app =
              rollback SQuestionDiscussion (responser ?u1 app3)"
    proof (cases "fst (GetOpenQuestionByUser ?u1 (DB app1))")
      case None
      from c(2) have "keys_ok (DB app1)" "\<not> fault (db_faults (DB app1))"
        by (simp_all add: good_def inv_ex_def no_faults_def)
      from GetOpenQuestionByUser_None [OF this None] have "none_open ?a (DB app1)" by simp
      with True c None show ?thesis by (auto simp: parseMessageUser_Discussion_def query_Get)
    next
      case (Some q)
      from GetOpenQuestionByUser_Some [OF Some] obtain q0 where
        q0: "q0 \<in> set (questions (DB app1))" "q = load_question q0 (DB app1)"
        "qUserID q0 = ?a" "\<not> qIsClosed q0" by auto
      have "uID ?u1 = ?a" by simp
      from AddCorrespondence_good [OF c(2) this, of "mMessageID m"] obtain r app2 where
        ac: "in_db (AddCorrespondence ?u1 (mMessageID m)) app1 = (None, r, app2)" "good ?a app2"
        "users (DB app2) = users (DB app1)" "questions (DB app2) = questions (DB app1)" by blast
      from q0(1) ac(4) have q2: "q0 \<in> set (questions (DB app2))" by simp
      from close_good [OF ac(2) q2 q0(2) ac(3) q0(3,4)] obtain q' app3 where
        cl: "in_db (ChangeQuestionIsClosed True q) app2 = (None, q', app3)"
        "good ?a app3" "none_open ?a (DB app3)" by auto
      show ?thesis
      proof (cases "uID (qAnswerer q') \<noteq> 0")
        case False
        with True c Some ac(1) cl show ?thesis
          by (auto simp: parseMessageUser_Discussion_def query_Get)
      next
        case ans: True
        from in_bot_good [OF cl(2), of "sendCorrespondenceFromUser q' m"] Send_nf
        obtain app4 where s: "in_bot (sendCorrespondenceFromUser q' m) app3 = (None, app4)"
          "good ?a app4" "DB app4 = DB app3"
          by (auto simp: sendCorrespondenceFromUser_def)
        with True c Some ac(1) cl ans show ?thesis
          by (auto simp: parseMessageUser_Discussion_def query_Get)
      qed
    qed
    then obtain app3 where g3: "good ?a app3" "none_open ?a (DB app3)"
      and p: "parseMessageUser_Discussion u m app =
                rollback SQuestionDiscussion (responser ?u1 app3)" by blast
    have "uID ?u1 = ?a" by simp
    from responser_keeps [OF g3(1) this] obtain u' app4 where
      r: "responser ?u1 app3 = (None, u', app4)" "keeps ?a app3 app4" by blast
    from keeps_done [OF r(2) g3(2)] p r(1) show ?thesis by (simp add: rollback_def)
  next
    case False
    show ?thesis
    proof (cases "fst (GetOpenQuestionByUser u (DB app))")
      case None
      with False assms(1,2) show ?thesis
        by (simp add: parseMessageUser_Discussion_def query_Get)
    next
      case (Some q)
      from GetOpenQuestionByUser_Some [OF Some] obtain q0 where
        q0: "q0 \<in> set (questions (DB app))" "q = load_question q0 (DB app)"
        "qUserID q0 = ?a" by auto
      have "\<exists>app1. (if uID (qAnswerer q) \<noteq> 0 then in_bot (sendCorrespondenceFromUser q m) app
                     else (None, app)) = (None, app1) \<and> good ?a app1 \<and> DB app1 = DB app"
        using in_bot_good [OF g0, of "sendCorrespondenceFromUser q m"] Send_nf g0
        by (auto simp: sendCorrespondenceFromUser_def)
      then obtain app1 where s: "(if uID (qAnswerer q) \<noteq> 0
          then in_bot (sendCorrespondenceFromUser q m) app else (None, app)) = (None, app1)"
        "good ?a app1" "DB app1 = DB app" by blast
      from q0(1) s(3) have q1: "q0 \<in> set (questions (DB app1))" by simp
      from save_loaded_good [OF s(2) q1, of "q\<lparr>qHaveAnswer := False\<rparr>" "DB app" "qAnswererID q0"]
        q0(2) s(3)
      obtain q' app2 where h: "in_db (save_question (q\<lparr>qHaveAnswer := False\<rparr>)) app1 =
          (None, q', app2)" "good ?a app2"
        "users (DB app2) = users (DB app1)" by auto
      from AddCorrespondence_good [OF h(2) refl, of "mMessageID m"] obtain r app3 where
        ac: "in_db (AddCorrespondence u (mMessageID m)) app2 = (None, r, app3)" "good ?a app3"
        "users (DB app3) = users (DB app2)" by blast
      from assms(3) s(3) h(3) ac(3) have "u \<in> set (users (DB app3))" by simp
      from good_in_discussion [OF ac(2) this refl assms(4,5)]
      have "no_faults app3 \<and> ask_inv (DB app3)" .
      moreover have "parseMessageUser_Discussion u m app = (None, app3)"
        using False Some s(1) h(1) ac(1) assms(2)
        by (simp add: parseMessageUser_Discussion_def ChangeQuestion_fun query_Get)
      ultimately show ?thesis by simp
    qed
  qed
qed

lemma parseMessageUser_safe:
  assumes "ask_inv (DB app)" and "no_faults app" and "u \<in> set (users (DB app))"
    and "\<not> uIsEmployee u"
  shows "no_faults (snd (parseMessageUser u m app)) \<and> ask_inv (DB (snd (parseMessageUser u m app)))"
proof (cases "uState u = SQuestionDiscussion")
  case True
  then have "uState u \<noteq> SNew" "uState u \<noteq> SMain" "uState u \<noteq> SReview"
    "uState u \<noteq> SReviewText" "uState u \<noteq> SQuestion"
    by (simp_all add: consts_defs)
  with True parseMessageUser_Discussion_safe [OF assms(1-3) True assms(4), of m]
  show ?thesis by (simp add: parseMessageUser_def)
next
  case False
  let ?a = "uID u"
  note g0 = ask_inv_good [OF assms(1-3)]
  from ask_inv_none_open [OF assms(1,3)] False have n0: "none_open ?a (DB app)" by simp
  note k0 = keeps_refl [OF g0]
  have fin: "no_faults app' \<and> ask_inv (DB app')" if "keeps ?a app app'" for app'
    using keeps_done [OF that n0] .
  consider (new) "uState u = SNew"
    | (main) "uState u \<noteq> SNew" "uState u = SMain"
    | (review) "uState u \<noteq> SNew" "uState u \<noteq> SMain" "uState u = SReview"
    | (rtext) "uState u \<noteq> SNew" "uState u \<noteq> SMain" "uState u \<noteq> SReview"
        "uState u = SReviewText"
    | (question) "uState u \<noteq> SNew" "uState u \<noteq> SMain" "uState u \<noteq> SReview"
        "uState u \<noteq> SReviewText" "uState u = SQuestion"
    | (other) "uState u \<noteq> SNew" "uState u \<noteq> SMain" "uState u \<noteq> SReview"
        "uState u \<noteq> SReviewText" "uState u \<noteq> SQuestion"
    by blast
  then show ?thesis
  proof cases
    case new
    from ChangeUserState_keeps [OF g0 refl, of SMain] obtain app' where
      "in_db (ChangeUserState SMain u) app = (None, u\<lparr>uState := SMain\<rparr>, app')"
      "keeps ?a app app'" by blast
    with new fin show ?thesis by (simp add: parseMessageUser_def)
  next
    case main
    have "\<exists>e app'. parseMessageUser_Main u m app = (e, app') \<and> keeps ?a app app'"
      using goto_keeps [OF g0 refl, of SReview SMain] goto_keeps [OF g0 refl, of SQuestion SMain] k0
      by (auto simp: parseMessageUser_Main_def)
    with main fin show ?thesis by (auto simp: parseMessageUser_def)
  next
    case review
    have "\<exists>e app'. parseMessageUser_Review u m app = (e, app') \<and> keeps ?a app app'"
    proof (cases "is_rating_token (mText m)")
      case True
      from parseReview_good [OF g0 refl, of "mText m"] obtain app1 where
        p: "parseReview (mText m) u app = (None, app1)" "good ?a app1"
        "questions (DB app1) = questions (DB app)" by blast
      from goto_keeps [OF p(2) refl, of SReviewText SReview] obtain app2 where
        "goto SReviewText SReview u app1 = (None, app2)" "keeps ?a app1 app2" by blast
      with True p keeps_trans [OF keepsI [OF p(2,3)]] show ?thesis
        by (auto simp: parseMessageUser_Review_def)
    next
      case False
      with k0 show ?thesis by (simp add: parseMessageUser_Review_def)
    qed
    with review fin show ?thesis by (auto simp: parseMessageUser_def)
  next
    case rtext
    let ?t = "if mText m = btn_Close then ''-'' else mText m"
    from ChangeTextReviewByUser_good [OF g0, of ?t u] obtain app1 where
      c: "query (ChangeTextReviewByUser ?t u) app = (None, app1)" "good ?a app1"
      "questions (DB app1) = questions (DB app)" by blast
    from goto_keeps [OF c(2) refl, of SMain SReviewText] obtain app2 where
      g: "goto SMain SReviewText u app1 = (None, app2)" "keeps ?a app1 app2" by blast
    have "keeps ?a app app1" using c(2,3) by (simp add: keepsI)
    from keeps_trans [OF this g(2)] have "keeps ?a app app2" .
    moreover have "parseMessageUser u m app = (None, app2)"
      using rtext c(1) g(1) by (simp add: parseMessageUser_def parseMessageUser_ReviewText_def)
    ultimately show ?thesis using fin by simp
  next
    case question
    with parseMessageUser_Question_safe [OF g0 n0 refl assms(4), of m] show ?thesis
      by (simp add: parseMessageUser_def)
  next
    case other
    with False assms(1,2) show ?thesis by (simp add: parseMessageUser_def)
  qed
qed

subsection \<open>Commands, button presses and updates\<close>

lemma AddUser_good:
  assumes "ask_inv (DB app)" and "no_faults app"
  shows "\<exists>usr app1. in_db (AddUser c n s) app = (None, usr, app1) \<and> good (uID usr) app1"
proof -
  let ?d = "DB app"
  from assms(2) have nf: "db_faults ?d = []" "bot_faults (Bot app) = []"
    by (simp_all add: no_faults_def)
  from assms(1) have keys: "keys_ok ?d" by (simp add: ask_inv_def)
  show ?thesis
  proof (cases "first_by uID (\<lambda>u. uChatID u = c \<or> uNickname u = n) (users ?d)")
    case None
    let ?u = "zero_user\<lparr>uNickname := n, uChatID := c, uState := s, uIsReceiver := False,
                         uID := fresh_id (map uID (users ?d))\<rparr>"
    let ?d' = "(consume ?d)\<lparr>users := users ?d @ [?u]\<rparr>"
    have a: "AddUser c n s ?d = (None, ?u, ?d')"
      using None nf
      by (simp add: AddUser_def First_ok consume_nf save_user_def zero_user_def upsert_fresh Let_def)
    have "uID ?u = fresh_id (map uID (users ?d))" "users ?d' = users ?d @ [?u]"
      "questions ?d' = questions ?d"
      by (simp_all add: consume_def)
    from ask_inv_new_user [OF assms(1) this]
    have "inv_ex (uID ?u) ?d'" "uID ?u \<in> uID ` set (users ?d')" by blast+
    with nf have "good (uID ?u) (app\<lparr>DB := ?d'\<rparr>)"
      by (simp add: good_def no_faults_def consume_def)
    with a show ?thesis by (auto simp: in_db_def simp del: user.simps)
  next
    case (Some u0)
    from first_by_Some_set [OF Some] have u0: "u0 \<in> set (users ?d)" by simp
    let ?u = "u0\<lparr>uNickname := n, uChatID := c, uState := s, uIsReceiver := False\<rparr>"
    from ask_inv_good [OF assms u0] have g0: "good (uID u0) app" .
    have "uID ?u = uID u0" by simp
    from save_user_good [OF g0 this] obtain app1 where
      "in_db (save_user ?u) app = (None, ?u, app1)" "good (uID u0) app1" by blast
    with Some nf show ?thesis by (auto simp: in_db_def AddUser_def First_ok consume_nf)
  qed
qed

lemma responserCommand_keeps:
  assumes "good a app" and "uID u = a"
  shows "\<exists>u' app'. responserCommand t u app = (None, u', app') \<and> keeps a app app'"
proof (cases "t = cmd_start")
  case False
  with keeps_refl [OF assms(1)] show ?thesis
    by (simp add: responserCommand_def responserCommandUser_def responserCommandEmployee_def)
next
  case True
  have "\<exists>u' app'. (case send c app of (Some e, app1) \<Rightarrow> (Some e, u, app1)
            | (None, app1) \<Rightarrow> in_db (ChangeUserState SMain u) app1) = (None, u', app') \<and>
          keeps a app app'" for c
  proof -
    from send_keeps [OF assms(1), of c] obtain app1 where
      s: "send c app = (None, app1)" "keeps a app app1" by blast
    from ChangeUserState_keeps [OF keeps_good [OF s(2)] assms(2), of SMain] obtain app2 where
      "in_db (ChangeUserState SMain u) app1 = (None, u\<lparr>uState := SMain\<rparr>, app2)"
      "keeps a app1 app2" by blast
    with s keeps_trans [OF s(2)] show ?thesis by simp
  qed
  with True show ?thesis
    by (simp add: responserCommand_def responserCommandUser_def responserCommandEmployee_def)
qed

lemma parseCommand_safe:
  assumes "ask_inv (DB app)" and "no_faults app"
  shows "no_faults (snd (snd (parseCommand m app))) \<and>
         ask_inv (DB (snd (snd (parseCommand m app))))"
proof (cases "mText m = cmd_start")
  case False
  with assms show ?thesis by (simp add: parseCommand_def)
next
  case True
  from AddUser_good [OF assms, of "tgID (mFrom m)" "tgUserName (mFrom m)" SNew]
  obtain usr app1 where a: "in_db (AddUser (tgID (mFrom m)) (tgUserName (mFrom m)) SNew) app
      = (None, usr, app1)" "good (uID usr) app1" by blast
  let ?a = "uID usr"
  from a(2) have keys1: "keys_ok (DB app1)" "\<not> fault (db_faults (DB app1))"
    by (simp_all add: good_def inv_ex_def no_faults_def)
  have "\<exists>app2. good ?a app2 \<and> none_open ?a (DB app2) \<and>
          parseCommand m app = (case responserCommand (mText m) usr app2 of
                                  (err, _, app3) \<Rightarrow> (True, err, app3))"
  proof (cases "fst (GetOpenQuestionByUser usr (DB app1))")
    case None
    from GetOpenQuestionByUser_None [OF keys1 None] have "none_open ?a (DB app1)" .
    with True a None show ?thesis by (auto simp: parseCommand_def query_Get)
  next
    case (Some q)
    from GetOpenQuestionByUser_Some [OF Some] obtain q0 where
      q0: "q0 \<in> set (questions (DB app1))" "q = load_question q0 (DB app1)"
      "qUserID q0 = ?a" "\<not> qIsClosed q0" by auto
    from close_good [OF a(2) q0(1,2) refl q0(3,4)] obtain q' app2 where
      "in_db (ChangeQuestionIsClosed True q) app1 = (None, q', app2)"
      "good ?a app2" "none_open ?a (DB app2)" by auto
    with True a Some show ?thesis by (auto simp: parseCommand_def query_Get)
  qed
  then obtain app2 where g: "good ?a app2" "none_open ?a (DB app2)"
    and p: "parseCommand m app = (case responserCommand (mText m) usr app2 of
                                    (err, _, app3) \<Rightarrow> (True, err, app3))" by blast
  from responserCommand_keeps [OF g(1) refl, of "mText m"] obtain u' app3 where
    r: "responserCommand (mText m) usr app2 = (None, u', app3)" "keeps ?a app2 app3" by blast
  from keeps_done [OF r(2) g(2)] p r(1) show ?thesis by simp
qed

lemma parseMessage_safe:
  assumes "ask_inv (DB app)" and "no_faults app"
  shows "no_faults (snd (parseMessage m app)) \<and> ask_inv (DB (snd (parseMessage m app)))"
proof (cases "mText m = cmd_start")
  case True
  then have "snd (parseMessage m app) = snd (snd (parseCommand m app))"
    by (auto simp: parseMessage_def parseCommand_def split: prod.splits option.splits)
  with parseCommand_safe [OF assms, of m] show ?thesis by simp
next
  case False
  show ?thesis
  proof (cases "fst (GetUserByChatID (tgID (mFrom m)) (DB app))")
    case None
    with False assms show ?thesis by (simp add: parseMessage_def parseCommand_def query_Get)
  next
    case (Some u)
    from GetUserByChatID_Some [OF Some] have u: "u \<in> set (users (DB app))" by simp
    note t = parseMessage_text [OF False Some, unfolded no_faults_consume [OF assms(2)]]
    show ?thesis
    proof (cases "uIsEmployee u")
      case True
      from ask_inv_none_open [OF assms(1) u] True have n: "none_open (uID u) (DB app)" by simp
      from parseMessageEmployee_keeps [OF ask_inv_good [OF assms u] refl, of m]
      obtain e app' where "parseMessageEmployee u m app = (e, app')" "keeps (uID u) app app'"
        by blast
      with keeps_done [OF _ n] t True show ?thesis by simp
    next
      case False
      with parseMessageUser_safe [OF assms u False, of m] t
      show ?thesis by simp
    qed
  qed
qed

lemma parseCallback_safe:
  assumes "ask_inv (DB app)" and "no_faults app"
  shows "no_faults (snd (parseCallback cb app)) \<and> ask_inv (DB (snd (parseCallback cb app)))"
proof (cases "fst (GetUserByChatID (mChatID (cbMessage cb)) (DB app))")
  case None
  with assms show ?thesis by (simp add: parseCallback_def query_Get)
next
  case (Some u)
  from GetUserByChatID_Some [OF Some] have u: "u \<in> set (users (DB app))" by simp
  show ?thesis
  proof (cases "uIsEmployee u")
    case True
    from ask_inv_none_open [OF assms(1) u] True have n: "none_open (uID u) (DB app)" by simp
    from parseCallbackEmployee_keeps [OF ask_inv_good [OF assms u] refl, of cb]
    obtain e app' where "parseCallbackEmployee u cb app = (e, app')" "keeps (uID u) app app'"
      by blast
    with keeps_done [OF _ n] Some True assms(2) show ?thesis
      by (simp add: parseCallback_def query_Get)
  next
    case False
    with Some assms show ?thesis by (simp add: parseCallback_def parseCallbackUser_def query_Get)
  qed
qed

lemma parseUpdate_safe:
  assumes "ask_inv (DB app)" and "no_faults app"
  shows "no_faults (snd (parseUpdate upd app)) \<and> ask_inv (DB (snd (parseUpdate upd app)))"
proof -
  obtain e1 app1 where m: "(case Message upd of None \<Rightarrow> (None, app)
                            | Some m \<Rightarrow> parseMessage m app) = (e1, app1)"
    by (cases "case Message upd of None \<Rightarrow> (None, app) | Some m \<Rightarrow> parseMessage m app")
  have s1: "no_faults app1 \<and> ask_inv (DB app1)"
  proof (cases "Message upd")
    case None
    with m assms show ?thesis by simp
  next
    case (Some msg)
    with m parseMessage_safe [OF assms, of msg] show ?thesis by simp
  qed
  obtain e2 app2 where c: "(case CallbackQuery upd of None \<Rightarrow> (e1, app1)
                            | Some cb \<Rightarrow> parseCallback cb app1) = (e2, app2)"
    by (cases "case CallbackQuery upd of None \<Rightarrow> (e1, app1) | Some cb \<Rightarrow> parseCallback cb app1")
  have s2: "no_faults app2 \<and> ask_inv (DB app2)"
  proof (cases "CallbackQuery upd")
    case None
    with c s1 show ?thesis by simp
  next
    case (Some cb)
    with c parseCallback_safe [of app1 cb] s1 show ?thesis by simp
  qed
  have "DB (snd (parseUpdate upd app)) = DB app2 \<and> Bot (snd (parseUpdate upd app)) = Bot app2"
    using m c by (cases e2) (simp_all add: parseUpdate_def split: prod.splits)
  with s2 show ?thesis by (simp add: no_faults_def)
qed

lemma RunFetcher_batch_safe:
  "ask_inv (DB app) \<Longrightarrow> no_faults app \<Longrightarrow>
     no_faults (RunFetcher_batch batch app) \<and> ask_inv (DB (RunFetcher_batch batch app))"
proof (induction batch arbitrary: app)
  case Nil
  then show ?case by simp
next
  case (Cons upd rest)
  from parseUpdate_safe [OF Cons.prems, of upd]
  have s: "no_faults (snd (parseUpdate upd app))" "ask_inv (DB (snd (parseUpdate upd app)))"
    by simp_all
  obtain e app1 where p: "parseUpdate upd app = (e, app1)" by (cases "parseUpdate upd app")
  with s Cons.IH [of app1] show ?case by (cases e) simp_all
qed

lemma ask_inv_empty: "ask_inv empty_db"
  by (simp add: ask_inv_def keys_ok_def one_open_per_asker_def empty_db_def)

section \<open>The rating parser\<close>

lemma rating_cases: "1 \<le> (r::int) \<Longrightarrow> r \<le> 5 \<Longrightarrow> r = 1 \<or> r = 2 \<or> r = 3 \<or> r = 4 \<or> r = 5"
  by arith

lemma rating_of_stars: "1 \<le> r \<Longrightarrow> r \<le> 5 \<Longrightarrow> rating_of (ratingInStars r) = r"
  using rating_cases [of r]
  by (auto simp: rating_of_def ratingInStars_def star_def eval_nat_numeral)

lemma rating_of_digit: "1 \<le> r \<Longrightarrow> r \<le> 5 \<Longrightarrow> rating_of (Itoa r) = r"
  using rating_cases [of r]
  by (auto simp: rating_of_def Itoa_def star_def digit_char_def itoa_nat_digit eval_nat_numeral)

lemma parseReview_saves:
  assumes "\<not> fault (db_faults (DB app))"
  shows "\<exists>app'. parseReview tok user app = (None, app') \<and>
           map rRating (reviews (DB app')) = map rRating (reviews (DB app)) @ [rating_of tok]"
  using assms
  by (simp add: parseReview_def in_db_def save_review_def upsert_fresh review_row_def Let_def
           split: prod.splits)

text \<open>
  C7. The rating parser resolves the star run of length \<open>r\<close> and the digit token of \<open>r\<close>
  to the rating \<open>r\<close>, for every \<open>r\<close> from 1 to 5: parsing undoes \<open>ratingInStars\<close>, and
  the review that \<open>parseReview\<close> stores for either token carries the rating \<open>r\<close>.
\<close>

theorem rating_roundtrip:
  assumes "1 \<le> r" and "r \<le> 5" and "tok = ratingInStars r \<or> tok = Itoa r"
  shows "rating_of tok = r \<and>
         (\<not> fault (db_faults (DB app)) \<longrightarrow>
            (\<exists>app'. parseReview tok user app = (None, app') \<and>
               map rRating (reviews (DB app')) = map rRating (reviews (DB app)) @ [r]))"
proof -
  from assms have r: "rating_of tok = r"
    using rating_of_stars rating_of_digit by blast
  show ?thesis
    using r parseReview_saves [of app tok user] by auto
qed

theorem rating_roundtrip_witness:
  "rating_of (star @ star @ star) = 3 \<and> rating_of ''3'' = 3 \<and>
   map rRating (reviews (DB (snd (parseReview (star @ star @ star) ann empty_app)))) = [3] \<and>
   map rRating (reviews (DB (snd (parseReview ''3'' ann empty_app)))) = [3]"
proof -
  have s: "ratingInStars 3 = star @ star @ star"
    by (simp add: ratingInStars_def eval_nat_numeral)
  have d: "Itoa 3 = ''3''"
    by (simp add: Itoa_def itoa_nat_digit digit_char_def)
  have e: "\<not> fault (db_faults (DB empty_app))" "reviews (DB empty_app) = []"
    by (simp_all add: empty_app_def empty_db_def)
  have "(1::int) \<le> 3" and "(3::int) \<le> 5" by simp_all
  note t = rating_roundtrip [OF this]
  from t [of "star @ star @ star" empty_app ann] t [of "''3''" empty_app ann] s d e
  show ?thesis by auto
qed

section \<open>The employee flag of a correspondence entry\<close>

lemma AddCorrespondence_flag:
  "AddCorrespondence user messageId d = (err, Some corr, d') \<Longrightarrow> \<not> cIsEmployee corr"
  by (auto simp: AddCorrespondence_def save_corr_def Let_def
           split: option.splits if_splits prod.splits)

text \<open>
  C4. An entry appended for a thread message should record whether its sender acted as an
  employee. \<open>AddCorrespondence\<close> writes the flag as the constant \<open>false\<close>: when Bob,
  an employee in the chat of question 1, sends a message, the appended entry names Bob as
  sender and carries the flag \<open>False\<close>.
\<close>

theorem employee_entry_flag_false:
  "map_option uIsEmployee (fst (GetUserByChatID 20 db_chat)) = Some True \<and>
   fst (parseMessage (text_from 20 ''bob'' 77 ''It shipped yesterday'') (on_db db_chat)) = None \<and>
   map (\<lambda>c. (cQuestionID c, cMessageID c, cUserID c, cIsEmployee c))
       (corrs (DB (snd (parseMessage (text_from 20 ''bob'' 77 ''It shipped yesterday'')
                          (on_db db_chat))))) = [(1, 77, 2, False)]"
  by code_simp

section \<open>Button presses outside the main menu\<close>

text \<open>
  C10. A button press of an employee whose state is not \<open>Main\<close> is ignored: the
  dispatcher returns no error and leaves the gateway and every table of the store as they
  were, whatever the data of the button. The store has answered one query, the lookup of
  the sender, and nothing else has happened to it; handling the update changes the
  configuration besides.
\<close>

theorem press_outside_Main_ignored:
  assumes "fst (GetUserByChatID (mChatID (cbMessage callback)) (DB app)) = Some user"
    and "uIsEmployee user" and "uState user \<noteq> SMain"
  shows "parseCallback callback app = (None, app\<lparr>DB := consume (DB app)\<rparr>) \<and>
         DB (snd (parseUpdate \<lparr>UpdateID = n, Message = None, CallbackQuery = Some callback\<rparr> app))
           = consume (DB app) \<and>
         users (DB (snd (parseUpdate \<lparr>UpdateID = n, Message = None,
                                       CallbackQuery = Some callback\<rparr> app))) = users (DB app) \<and>
         reviews (DB (snd (parseUpdate \<lparr>UpdateID = n, Message = None,
                                         CallbackQuery = Some callback\<rparr> app))) = reviews (DB app) \<and>
         questions (DB (snd (parseUpdate \<lparr>UpdateID = n, Message = None,
                                           CallbackQuery = Some callback\<rparr> app)))
           = questions (DB app) \<and>
         corrs (DB (snd (parseUpdate \<lparr>UpdateID = n, Message = None,
                                       CallbackQuery = Some callback\<rparr> app))) = corrs (DB app) \<and>
         Bot (snd (parseUpdate \<lparr>UpdateID = n, Message = None, CallbackQuery = Some callback\<rparr> app))
           = Bot app"
proof -
  let ?app1 = "app\<lparr>DB := consume (DB app)\<rparr>"
  have "parseCallbackEmployee user callback ?app1 = (None, ?app1)"
    using assms(3) by (simp add: parseCallbackEmployee_def split: prod.splits)
  then have c: "parseCallback callback app = (None, ?app1)"
    using assms(1,2) by (simp add: parseCallback_def query_Get)
  then show ?thesis
    by (simp add: parseUpdate_def WriteConfig_def)
qed

theorem press_outside_Main_ignored_witness:
  "fst (GetUserByChatID 20 db_chat) = Some (bob\<lparr>uState := SQuestionDiscussion\<rparr>) \<and>
   parseCallback (press_from 20 ''bob'' ''1-1'') (on_db db_chat) = (None, on_db db_chat) \<and>
   DB (snd (parseUpdate \<lparr>UpdateID = 5, Message = None,
                          CallbackQuery = Some (press_from 20 ''bob'' ''1-1'')\<rparr> (on_db db_chat)))
     = db_chat"
proof -
  have u: "fst (GetUserByChatID (mChatID (cbMessage (press_from 20 ''bob'' ''1-1'')))
                  (DB (on_db db_chat)))
             = Some (bob\<lparr>uState := SQuestionDiscussion\<rparr>)"
    by code_simp
  have e: "uIsEmployee (bob\<lparr>uState := SQuestionDiscussion\<rparr>)"
    by (simp add: bob_def)
  have s: "uState (bob\<lparr>uState := SQuestionDiscussion\<rparr>) \<noteq> SMain"
    by (simp add: consts_defs)
  have c: "mChatID (cbMessage (press_from 20 ''bob'' ''1-1'')) = 20" "DB (on_db db_chat) = db_chat"
    by (simp_all add: press_from_def text_from_def on_db_def)
  have n: "consume db_chat = db_chat"
    by (rule consume_nf) (simp add: db_chat_def empty_db_def)
  from press_outside_Main_ignored [OF u e s, of 5] u c n show ?thesis
    by simp
qed

section \<open>Claiming a question that is already taken\<close>

text \<open>
  What a claim does when the filtered fetch returns nothing and no call fails: the
  questions are untouched, both messages go out, and the employee is written into
  \<open>QuestionDiscussion\<close>.
\<close>

lemma claim_of_taken_question:
  assumes "uIsEmployee u" and "uState u = SMain" and "uID u \<noteq> 0"
    and "splitCallbackData cb = (CBQuestion, data)" and "Atoi data = Inr ident"
    and "fst (GetNewQuestionById ident (DB app)) = None" and "no_faults app"
  shows "\<exists>app'. parseCallbackEmployee u cb app = (None, app') \<and>
           questions (DB app') = questions (DB app) \<and>
           users (DB app') = upsert uID (u\<lparr>uState := SQuestionDiscussion\<rparr>) (users (DB app)) \<and>
           map fst (calls (Bot app')) = map fst (calls (Bot app)) @
             [NewMessage (uChatID u) ''Question already taken'' NoMarkup,
              NewMessage (uChatID u) ''You have entered a chat with a user''
                (newReplyKeyboardMarkup (buttons EmplExit))]"
proof -
  from assms(7) have nf: "db_faults (DB app) = []" "bot_faults (Bot app) = []"
    by (simp_all add: no_faults_def)
  let ?c1 = "NewMessage (uChatID u) ''Question already taken'' NoMarkup"
  let ?c2 = "NewMessage (uChatID u) ''You have entered a chat with a user''
                (newReplyKeyboardMarkup (buttons EmplExit))"
  let ?u1 = "u\<lparr>uState := SQuestionDiscussion\<rparr>"
  let ?app1 = "app\<lparr>Bot := (Bot app)\<lparr>calls := calls (Bot app) @ [(?c1, True)], bot_faults := []\<rparr>\<rparr>"
  let ?app2 = "?app1\<lparr>DB := (consume (DB app))\<lparr>users := upsert uID ?u1 (users (DB app))\<rparr>\<rparr>"
  let ?app3 = "?app2\<lparr>Bot := (Bot ?app2)\<lparr>calls := calls (Bot ?app2) @ [(?c2, True)],
                                          bot_faults := []\<rparr>\<rparr>"
  have l: "loadCorrespondence ident u app = (None, ?app1)"
    using assms(6,7) nf by (simp add: loadCorrespondence_def query_Get send_def Send_def)
  have c: "in_db (ChangeUserState SQuestionDiscussion u) ?app1 = (None, ?u1, ?app2)"
    using nf assms(3) by (simp add: in_db_def ChangeUserState_def save_user_ok)
  have st: "uState ?u1 \<noteq> SMain" "uState ?u1 \<noteq> SReview" "uState ?u1 \<noteq> SQuestion"
    by (simp_all add: consts_defs)
  have r: "responser ?u1 ?app2 = (None, ?u1, ?app3)"
    using assms(1) st by (simp add: responser_def responserEmployee_def send_def Send_def)
  have "parseCallbackEmployee u cb app = (None, ?app3)"
    using assms(2,4,5) l c r by (simp add: parseCallbackEmployee_def goto_def rollback_def)
  then show ?thesis by (simp add: consume_def)
qed

text \<open>
  C1. A claim of an employee in \<open>Main\<close> on a question that the filtered fetch does not
  return should send the "already taken" message and change nothing. The questions do
  stay as they were, but \<open>loadCorrespondence\<close> returns the result of sending the message,
  which is no error when the message goes out, and \<open>parseCallbackEmployee\<close> goes on to
  move the employee to \<open>QuestionDiscussion\<close>. Here Eve holds question 1 and Bob, in
  \<open>Main\<close>, presses its button.
\<close>

theorem claim_of_taken_question_changes_state:
  "fst (GetNewQuestionById 1 db_taken) = None \<and>
   map_option uState (fst (GetUserByChatID 20 db_taken)) = Some SMain \<and>
   fst (parseCallback (press_from 20 ''bob'' ''1-1'') (on_db db_taken)) = None \<and>
   map_option uState
     (fst (GetUserByChatID 20
             (DB (snd (parseCallback (press_from 20 ''bob'' ''1-1'') (on_db db_taken))))))
     = Some SQuestionDiscussion \<and>
   questions (DB (snd (parseCallback (press_from 20 ''bob'' ''1-1'') (on_db db_taken))))
     = questions db_taken \<and>
   calls (Bot (snd (parseCallback (press_from 20 ''bob'' ''1-1'') (on_db db_taken))))
     = [(NewMessage 20 ''Question already taken'' NoMarkup, True),
        (NewMessage 20 ''You have entered a chat with a user''
           (newReplyKeyboardMarkup (buttons EmplExit)), True)]"
  by code_simp

section \<open>The cursor\<close>

lemma parseUpdate_cursor:
  "(case parseUpdate upd app of
      (None, app') \<Rightarrow>
        offset (Conf app') = UpdateID upd + 1 \<and> written_offset (Conf app') = UpdateID upd + 1
    | (Some e, app') \<Rightarrow> written_offset (Conf app') = written_offset (Conf app))"
proof -
  obtain e1 app1 where m: "(case Message upd of None \<Rightarrow> (None, app)
                            | Some m \<Rightarrow> parseMessage m app) = (e1, app1)"
    by (cases "case Message upd of None \<Rightarrow> (None, app) | Some m \<Rightarrow> parseMessage m app")
  then have c1: "Conf app1 = Conf app"
    by (auto split: option.splits dest: parseMessage_Conf)
  obtain e2 app2 where c: "(case CallbackQuery upd of None \<Rightarrow> (e1, app1)
                            | Some cb \<Rightarrow> parseCallback cb app1) = (e2, app2)"
    by (cases "case CallbackQuery upd of None \<Rightarrow> (e1, app1) | Some cb \<Rightarrow> parseCallback cb app1")
  then have c2: "Conf app2 = Conf app"
    using c1 by (auto split: option.splits dest: parseCallback_Conf)
  show ?thesis
    using m c c2 by (cases e2) (simp_all add: parseUpdate_def WriteConfig_def)
qed

lemma RunFetcher_batch_cursor:
  "written_offset (Conf (RunFetcher_batch batch app)) =
     (if parsed_ok batch app = 0 then written_offset (Conf app)
      else UpdateID (batch ! (parsed_ok batch app - 1)) + 1)"
proof (induction batch arbitrary: app)
  case Nil
  then show ?case by simp
next
  case (Cons upd rest)
  obtain e app1 where p: "parseUpdate upd app = (e, app1)"
    by (cases "parseUpdate upd app")
  show ?case
  proof (cases e)
    case None
    with p parseUpdate_cursor [of upd app]
    have w: "written_offset (Conf app1) = UpdateID upd + 1" by simp
    show ?thesis
      using p None w Cons.IH [of app1] by (cases "parsed_ok rest app1") simp_all
  next
    case (Some err)
    with p parseUpdate_cursor [of upd app] show ?thesis by simp
  qed
qed

lemma parsed_ok_le: "parsed_ok batch app \<le> length batch"
  by (induction batch arbitrary: app) (auto split: prod.splits option.splits)

text \<open>
  The sum is Go's: one past the greatest identifier is the least one.
\<close>

lemma cursor_wraps_around:
  "sint (offset (Conf (snd (parseUpdate \<lparr>UpdateID = 9223372036854775807, Message = None,
                                         CallbackQuery = None\<rparr> empty_app))))
     = - 9223372036854775808"
  by code_simp

text \<open>
  C5, as the code has it. The cursor moves once per event, not once per batch: an update
  parsed without an error sets the offset, in memory and in the written configuration, to
  its id plus one (the sum of 64-bit integers, which wraps around) before the next update
  is taken up; an update whose parsing returns an error leaves the written offset alone
  and ends the cycle. After a cycle the written offset is therefore one past the last
  update parsed without an error, or unchanged when there is none.
\<close>

theorem cursor_moves_per_update:
  "(case parseUpdate upd app of
      (None, app') \<Rightarrow>
        offset (Conf app') = UpdateID upd + 1 \<and> written_offset (Conf app') = UpdateID upd + 1
    | (Some e, app') \<Rightarrow> written_offset (Conf app') = written_offset (Conf app)) \<and>
   parsed_ok batch app \<le> length batch \<and>
   written_offset (Conf (RunFetcher_batch batch app)) =
     (if parsed_ok batch app = 0 then written_offset (Conf app)
      else UpdateID (batch ! (parsed_ok batch app - 1)) + 1)"
  using parseUpdate_cursor [of upd app] RunFetcher_batch_cursor [of batch app]
    parsed_ok_le [of batch app]
  by simp

text \<open>
  C5, as the claim states it, fails: in the batch of Ann's \<open>/start\<close> followed by a text
  from an unknown chat, the written offset has moved from 0 to 8 after the first update,
  while the second is still to be handled; the second then fails, so the batch is never
  fully and successfully processed, and the written offset stays at 8.
\<close>

theorem cursor_moves_inside_batch:
  "written_offset (Conf empty_app) = 0 \<and>
   written_offset (Conf (snd (parseUpdate upd_start empty_app))) = 8 \<and>
   fst (parseUpdate upd_unknown (snd (parseUpdate upd_start empty_app))) = Some (UserNotFound 99) \<and>
   parsed_ok [upd_start, upd_unknown] empty_app = 1 \<and>
   written_offset (Conf (RunFetcher_batch [upd_start, upd_unknown] empty_app)) = 8"
  by code_simp

section \<open>Replaying a thread\<close>


lemma forward_of_loaded:
  "forward_of user (c\<lparr>cUser := preload_user (cUserID c) d\<rparr>) = replay_of user d c"
  by (simp add: forward_of_def replay_of_def)


text \<open>
  The lookup by number replays in the same way, after the text of the question: when the
  fetch of the thread does not fail, the tables are left alone and what is delivered is
  the text of the question, unless that delivery fails, and a prefix of the thread.
\<close>

lemma lookup_replays_prefix:
  assumes "Atoi t = Inr ident" and "fst (GetQuestionById ident (DB app)) = Some q"
    and "\<not> fails_at (db_faults (DB app)) 1"
  shows "\<exists>b k. k \<le> length (thread_of (qID q) (DB app)) \<and>
           users (DB (loadFullQuestionById t u app)) = users (DB app) \<and>
           questions (DB (loadFullQuestionById t u app)) = questions (DB app) \<and>
           corrs (DB (loadFullQuestionById t u app)) = corrs (DB app) \<and>
           delivered (Bot (loadFullQuestionById t u app)) =
             delivered (Bot app) @
             (if b then [NewMessage (uChatID u) (qHeader q) NoMarkup] else []) @
             map (replay_of u (DB app)) (take k (thread_of (qID q) (DB app)))"
proof -
  let ?h = "NewMessage (uChatID u) (qHeader q) NoMarkup"
  let ?d = "consume (DB app)"
  let ?es = "thread_of (qID q) (DB app)"
  let ?ls = "map (\<lambda>c. c\<lparr>cUser := preload_user (cUserID c) (DB app)\<rparr>) ?es"
  obtain e1 tg1 where s: "Send ?h (Bot app) = (e1, tg1)" by (cases "Send ?h (Bot app)")
  then have a1: "snd (send ?h (app\<lparr>DB := ?d\<rparr>)) = app\<lparr>DB := ?d, Bot := tg1\<rparr>"
    by (simp add: send_def)
  have nf: "\<not> fault (db_faults ?d)" using assms(3) by simp
  have g: "GetCorrespondenceByQuestion q ?d = (?ls, consume ?d)"
    unfolding GetCorrespondenceByQuestion_ok [OF nf]
    by (simp add: thread_of_def preload_user_def)
  obtain e2 tg2 where f: "forward_each u ?ls tg1 = (e2, tg2)" by (cases "forward_each u ?ls tg1")
  have r: "loadFullQuestionById t u app = app\<lparr>DB := consume ?d, Bot := tg2\<rparr>"
    using assms(1,2) a1 f g by (simp add: loadFullQuestionById_def in_bot_def query_Get query_snd)
  from Send_cases [OF s] have "\<exists>b. delivered tg1 = delivered (Bot app) @ (if b then [?h] else [])"
    by (cases e1) (auto intro: exI [of _ True] exI [of _ False])
  then obtain b where b: "delivered tg1 = delivered (Bot app) @ (if b then [?h] else [])" by blast
  from forward_each_prefix [OF f] obtain k where k: "k \<le> length ?es"
    "delivered tg2 = delivered tg1 @ map (forward_of u) (take k ?ls)" by auto
  have "map (forward_of u) (take k ?ls) = map (replay_of u (DB app)) (take k ?es)"
    by (simp add: take_map forward_of_loaded comp_def)
  with k have "delivered tg2 = delivered tg1 @ map (replay_of u (DB app)) (take k ?es)" by simp
  then show ?thesis
    by (intro exI [of _ b] exI [of _ k]) (use r b k(1) in simp)
qed




section \<open>Fanning a new question out\<close>




section \<open>Leaving a discussion\<close>

text \<open>
  C8. An employee in \<open>QuestionDiscussion\<close> who sends the back button should release
  the question: the answerer is cleared, the question stays open and can be claimed
  again, and the employee goes back to \<open>Main\<close>. The handler does call
  \<open>ChangeQuestionAnswerer\<close> with the key 0, but on the struct that
  \<open>GetOpenQuestionByAnswerer\<close> has read with \<open>Preload("Answerer")\<close>: the struct
  carries the employee's row, and \<open>Save\<close> sets the key back to the key of the carried
  row. Here Bob holds question 1, which is open and unanswered, and sends the back button:
  no error is returned, Bob is in \<open>Main\<close>, and question 1 still names Bob as its
  answerer, so that the filtered fetch of a claim does not return it.
\<close>

theorem back_keeps_claim:
  "map_option (\<lambda>u. (uID u, uIsEmployee u, uState u)) (fst (GetUserByChatID 20 db_chat))
     = Some (2, True, SQuestionDiscussion) \<and>
   map (\<lambda>q. (qID q, qAnswererID q, qHaveAnswer q, qIsClosed q)) (questions db_chat)
     = [(1, 2, False, False)] \<and>
   map_option (\<lambda>q. (qID q, qAnswererID q, uID (qAnswerer q)))
     (fst (GetOpenQuestionByAnswerer (bob\<lparr>uState := SMain\<rparr>) db_chat)) = Some (1, 2, 2) \<and>
   map_option (\<lambda>q. case ChangeQuestionAnswerer 0 q db_chat of
                      (err, q', d) \<Rightarrow> (err, qAnswererID q', map qAnswererID (questions d)))
     (fst (GetOpenQuestionByAnswerer (bob\<lparr>uState := SMain\<rparr>) db_chat)) = Some (None, 2, [2]) \<and>
   fst (parseMessage (text_from 20 ''bob'' 7 btn_Back) (on_db db_chat)) = None \<and>
   map_option uState
     (fst (GetUserByChatID 20
             (DB (snd (parseMessage (text_from 20 ''bob'' 7 btn_Back) (on_db db_chat))))))
     = Some SMain \<and>
   map (\<lambda>q. (qID q, qAnswererID q, qHaveAnswer q, qIsClosed q))
     (questions (DB (snd (parseMessage (text_from 20 ''bob'' 7 btn_Back) (on_db db_chat)))))
     = [(1, 2, False, False)] \<and>
   fst (GetNewQuestionById 1
          (DB (snd (parseMessage (text_from 20 ''bob'' 7 btn_Back) (on_db db_chat))))) = None"
  by code_simp

section \<open>The start command and the receiving flag\<close>

text \<open>
  C9. Processing \<open>/start\<close> should switch the sender's flag \<open>IsReceiver\<close> off, so that
  an employee who sends \<open>/start\<close> again gets no more offers of new questions until he
  switches receiving on again. \<open>AddUser\<close> does switch the flag off in the row it
  rewrites, but it finds that row by the sender's chat or user name, whichever row comes
  first, and an empty user name matches the row of any user without one. Here Ann has
  joined without a user name (row 1); Bob (row 2, chat 20) has registered and started as
  \<open>bob\<close> and accepts questions; he has since dropped his user name and sends
  \<open>/start\<close>. No call fails. \<open>AddUser\<close> rewrites Ann's row, which now names chat 20,
  and leaves Bob's row as it was: it still accepts questions, the fetch of the receivers
  still returns it, and the question that Cat asks next is offered to chat 20.
\<close>

theorem start_of_nameless_employee_keeps_receiving:
  "map (\<lambda>u. (uID u, uChatID u, uNickname u, uIsEmployee u, uIsReceiver u)) (users db_nameless)
     = [(1, 10, [], False, False), (2, 20, ''bob'', True, True), (3, 30, ''eve'', True, True),
        (4, 40, ''cat'', False, False)] \<and>
   map_option uID (fst (GetUserByChatID 20 db_nameless)) = Some 2 \<and>
   fst (parseMessage (text_from 20 [] 3 cmd_start) (on_db db_nameless)) = None \<and>
   map (\<lambda>u. (uID u, uChatID u, uNickname u, uIsEmployee u, uIsReceiver u))
     (users (DB (snd (parseMessage (text_from 20 [] 3 cmd_start) (on_db db_nameless)))))
     = [(1, 20, [], False, False), (2, 20, ''bob'', True, True), (3, 30, ''eve'', True, True),
        (4, 40, ''cat'', False, False)] \<and>
   map (\<lambda>u. (uID u, uChatID u))
     (fst (GetReceivers (DB (snd (parseMessage (text_from 20 [] 3 cmd_start) (on_db db_nameless))))))
     = [(2, 20), (3, 30)] \<and>
   drop 1 (calls (Bot (snd (parseMessage (text_from 40 ''cat'' 9 ''Where is my parcel?'')
                             (snd (parseMessage (text_from 20 [] 3 cmd_start)
                                     (on_db db_nameless)))))))
     = [(offer bob (zero_question\<lparr>qID := 1, qHeader := ''Where is my parcel?'', qUserID := 4\<rparr>),
         True),
        (offer eve (zero_question\<lparr>qID := 1, qHeader := ''Where is my parcel?'', qUserID := 4\<rparr>),
         True),
        (NewMessage 40 (''Your question #1'' @ nl @ ''Thank you for your question'' @ nl @
                        ''An available employee will answer you shortly'') NoMarkup, True)] \<and>
   uChatID bob = 20"
  by code_simp

section \<open>At most one open question per asker\<close>

text \<open>
  C2, as the code has it. Creating a question checks nothing; the bound is kept by the
  conversation state. Starting from a store in which the asker of every open question is a
  customer in \<open>QuestionDiscussion\<close> and no asker has two open questions (the empty
  store is one), a dispatch step in which no call to the store or to the gateway fails
  leads to such a store again, and so does a whole cycle of \<open>RunFetcher\<close>. In
  particular no asker has two open questions afterwards.
\<close>

theorem one_open_question_when_nothing_fails:
  assumes "ask_inv (DB app)" and "no_faults app"
  shows "ask_inv (DB (snd (parseUpdate upd app))) \<and> no_faults (snd (parseUpdate upd app)) \<and>
         one_open_per_asker (DB (snd (parseUpdate upd app))) \<and>
         ask_inv (DB (RunFetcher_batch batch app)) \<and> no_faults (RunFetcher_batch batch app) \<and>
         one_open_per_asker (DB (RunFetcher_batch batch app))"
  using parseUpdate_safe [OF assms, of upd] RunFetcher_batch_safe [OF assms, of batch]
  by (simp add: ask_inv_def)

theorem one_open_question_when_nothing_fails_witness:
  "ask_inv (DB empty_app) \<and> no_faults empty_app \<and>
   map (\<lambda>q. (qID q, qUserID q, qIsClosed q))
     (questions (DB (RunFetcher_batch [upd_start, upd_button, upd_ask] empty_app)))
     = [(1, 1, False)] \<and>
   one_open_per_asker (DB (RunFetcher_batch [upd_start, upd_button, upd_ask] empty_app))"
proof -
  have h1: "ask_inv (DB empty_app)"
    using ask_inv_empty by (simp add: empty_app_def)
  have h2: "no_faults empty_app"
    by (simp add: no_faults_def empty_app_def empty_db_def)
  have e: "map (\<lambda>q. (qID q, qUserID q, qIsClosed q))
     (questions (DB (RunFetcher_batch [upd_start, upd_button, upd_ask] empty_app)))
     = [(1, 1, False)]"
    by code_simp
  from one_open_question_when_nothing_fails [OF h1 h2, of _ "[upd_start, upd_button, upd_ask]"]
  have "one_open_per_asker (DB (RunFetcher_batch [upd_start, upd_button, upd_ask] empty_app))"
    by blast
  with h1 h2 e show ?thesis by blast
qed

text \<open>
  C2, as the claim states it, fails once a delivery fails. Ann sends \<open>/start\<close>, the
  question button and her question; the gateway fails on the prompt that follows the
  question. The question has been stored, Ann is put back into the \<open>Question\<close> state,
  the cycle ends with the offset still at her question, and the next cycle handles the
  same update again: a second open question of Ann is stored.
\<close>

theorem failed_prompt_duplicates_question:
  "one_open_per_asker (DB flaky_app) \<and>
   offset (Conf (RunFetcher_batch [upd_start, upd_button, upd_ask] flaky_app)) = UpdateID upd_ask \<and>
   one_open_per_asker (DB (RunFetcher_batch [upd_start, upd_button, upd_ask] flaky_app)) \<and>
   map_option uState
     (fst (GetUserByChatID 10 (DB (RunFetcher_batch [upd_start, upd_button, upd_ask] flaky_app))))
     = Some SQuestion \<and>
   map (\<lambda>q. (qID q, qUserID q, qIsClosed q))
     (questions (DB (RunFetcher_batch [upd_ask]
                       (RunFetcher_batch [upd_start, upd_button, upd_ask] flaky_app))))
     = [(1, 1, False), (2, 1, False)] \<and>
   \<not> one_open_per_asker (DB (RunFetcher_batch [upd_ask]
                       (RunFetcher_batch [upd_start, upd_button, upd_ask] flaky_app)))"
  by code_simp

end
